theory Spec2Isabelle
  imports Main "HOL-Library.Word" "HOL-Library.Monad_Syntax"
begin

unbundle bit_operations_syntax

section \<open>The flush and refresh engine of the e-ink display driver\<close>

text \<open>
  The engine is the file-level state of the display driver (the partial-update counter,
  the shadow framebuffer, the pending flag and the row bitmap) together with the
  functions \<^verbatim>\<open>my_disp_flush\<close>, \<^verbatim>\<open>eink_force_full_refresh\<close>,
  \<^verbatim>\<open>set_full_frame_pixel\<close>, \<^verbatim>\<open>get_full_frame_pixel\<close>,
  \<^verbatim>\<open>mark_rows_covered\<close>, \<^verbatim>\<open>all_rows_covered\<close>,
  \<^verbatim>\<open>perform_full_refresh\<close> and \<^verbatim>\<open>schedule_full_refresh_request\<close>.
  Every function takes the state and returns the new one. A result \<open>None\<close> stands for
  a run with no defined outcome: an array access outside its bounds, or a loop that does
  not come to an end.
\<close>

type_synonym u8 = "8 word"
type_synonym u16 = "16 word"

subsection \<open>Constants of the header and the panel driver\<close>

text \<open>
  The header \<^verbatim>\<open>eink_display.h\<close> defines the macros \<^verbatim>\<open>SCREEN_WIDTH\<close>,
  \<^verbatim>\<open>SCREEN_HEIGHT\<close> and \<^verbatim>\<open>MAX_PARTIAL_UPDATES\<close>; they are parameters here.
  \<open>more_pages\<close> is the number of times \<^verbatim>\<open>display.nextPage()\<close> of the panel
  library answers true in one paged drawing cycle (it is fixed by the template
  instance of the display object).
\<close>

record config =
  SCREEN_WIDTH :: nat
  SCREEN_HEIGHT :: nat
  MAX_PARTIAL_UPDATES :: nat
  more_pages :: nat

subsection \<open>Calls into the panel library, the toolkit and the serial port\<close>

datatype event =
    SetPartialWindow int int nat nat
  | FirstPage
  | NextPage
  | WritePixel nat nat bool
  | Hibernate
  | Init
  | SetFullWindow
  | Println string
  | FlushReady
  | InvalidateScreen

subsection \<open>The state\<close>

text \<open>
  \<open>trace\<close> lists the external calls made so far, oldest first; the other fields are
  the static variables of the file.
\<close>

record eink =
  partial_update_count :: u8
  full_frame_buffer :: "u8 list"
  full_refresh_pending :: bool
  full_refresh_row_bitmap :: "u8 list"
  trace :: "event list"

text \<open>The static initialisers: counters and arrays start at zero.\<close>

definition initial :: "config \<Rightarrow> eink" where
  "initial cfg =
     \<lparr>partial_update_count = 0,
      full_frame_buffer = replicate ((SCREEN_WIDTH cfg * SCREEN_HEIGHT cfg + 7) div 8) 0,
      full_refresh_pending = False,
      full_refresh_row_bitmap = replicate ((SCREEN_HEIGHT cfg + 7) div 8) 0,
      trace = []\<rparr>"

definition emit :: "event \<Rightarrow> eink \<Rightarrow> eink" where
  "emit e s = s\<lparr>trace := trace s @ [e]\<rparr>"

text \<open>The toolkit's rectangle \<^verbatim>\<open>lv_area_t\<close>: inclusive bounds, 32-bit signed.\<close>

record lv_area =
  x1 :: int
  y1 :: int
  x2 :: int
  y2 :: int

text \<open>Conversion of a C integer value to \<^verbatim>\<open>uint32_t\<close>.\<close>

definition u32 :: "int \<Rightarrow> nat" where
  "u32 i = nat (i mod 2 ^ 32)"

subsection \<open>Loops\<close>

text \<open>
  A \<^verbatim>\<open>for\<close> loop whose counter runs through the given values; the body may
  fail, and then the loop fails.
\<close>

fun for_range :: "nat list \<Rightarrow> (nat \<Rightarrow> 'a \<Rightarrow> 'a option) \<Rightarrow> 'a \<Rightarrow> 'a option" where
  "for_range [] body s = Some s"
| "for_range (i # rest) body s =
     (case body i s of None \<Rightarrow> None | Some t \<Rightarrow> for_range rest body t)"

text \<open>
  \<^verbatim>\<open>do { body } while (display.nextPage());\<close> where \<^verbatim>\<open>nextPage\<close> answers
  true \<open>n\<close> more times.
\<close>

fun page_loop :: "nat \<Rightarrow> (eink \<Rightarrow> eink option) \<Rightarrow> eink \<Rightarrow> eink option" where
  "page_loop 0 body s = map_option (emit NextPage) (body s)"
| "page_loop (Suc n) body s =
     (case body s of None \<Rightarrow> None | Some t \<Rightarrow> page_loop n body (emit NextPage t))"

subsection \<open>The shadow framebuffer\<close>

definition set_full_frame_pixel :: "config \<Rightarrow> u16 \<Rightarrow> u16 \<Rightarrow> bool \<Rightarrow> eink \<Rightarrow> eink option" where
  "set_full_frame_pixel cfg x y is_black s =
     (let bit_index = (unat y * SCREEN_WIDTH cfg + unat x) mod 2 ^ 32;
          byte_index = bit_index div 8;
          bit_mask = drop_bit (bit_index mod 8) (0x80 :: u8);
          fb = full_frame_buffer s
      in if byte_index < length fb
         then Some (s\<lparr>full_frame_buffer :=
                fb[byte_index := (if is_black then fb ! byte_index OR bit_mask
                                  else fb ! byte_index AND NOT bit_mask)]\<rparr>)
         else None)"

definition get_full_frame_pixel :: "config \<Rightarrow> u16 \<Rightarrow> u16 \<Rightarrow> eink \<Rightarrow> bool option" where
  "get_full_frame_pixel cfg x y s =
     (let bit_index = (unat y * SCREEN_WIDTH cfg + unat x) mod 2 ^ 32;
          byte_index = bit_index div 8;
          bit_mask = drop_bit (bit_index mod 8) (0x80 :: u8);
          fb = full_frame_buffer s
      in if byte_index < length fb
         then Some (fb ! byte_index AND bit_mask \<noteq> 0)
         else None)"

subsection \<open>Row coverage\<close>

text \<open>
  The loop of \<^verbatim>\<open>mark_rows_covered\<close>, from the current \<open>row\<close>: the counter is a
  \<^verbatim>\<open>uint16_t\<close>, so \<open>row + 1\<close> wraps.
\<close>

partial_function (option) mark_rows_loop :: "config \<Rightarrow> u16 \<Rightarrow> u16 \<Rightarrow> eink \<Rightarrow> eink option" where
  "mark_rows_loop cfg row last_row s =
     (if row \<le> last_row \<and> unat row < SCREEN_HEIGHT cfg
      then (let bit_index = row;
                byte_index = unat (bit_index div 8);
                bit_mask = push_bit (unat (bit_index mod 8)) (1 :: u8);
                bm = full_refresh_row_bitmap s
            in if byte_index < length bm
               then mark_rows_loop cfg (row + 1) last_row
                      (s\<lparr>full_refresh_row_bitmap := bm[byte_index := bm ! byte_index OR bit_mask]\<rparr>)
               else None)
      else Some s)"

declare mark_rows_loop.simps [code]

definition mark_rows_covered :: "config \<Rightarrow> u16 \<Rightarrow> u16 \<Rightarrow> eink \<Rightarrow> eink option" where
  "mark_rows_covered cfg first_row last_row s = mark_rows_loop cfg first_row last_row s"

text \<open>
  The first loop of \<^verbatim>\<open>all_rows_covered\<close>: \<open>Some False\<close> is its early
  \<^verbatim>\<open>return false\<close>.
\<close>

fun full_bytes_loop :: "u8 list \<Rightarrow> nat list \<Rightarrow> bool option" where
  "full_bytes_loop bm [] = Some True"
| "full_bytes_loop bm (i # rest) =
     (if i < length bm
      then (if bm ! i \<noteq> 0xFF then Some False else full_bytes_loop bm rest)
      else None)"

definition all_rows_covered :: "config \<Rightarrow> eink \<Rightarrow> bool option" where
  "all_rows_covered cfg s =
     (let total_rows = SCREEN_HEIGHT cfg mod 2 ^ 16;
          full_bytes = total_rows div 8;
          bm = full_refresh_row_bitmap s
      in case full_bytes_loop bm [0..<full_bytes] of
           None \<Rightarrow> None
         | Some False \<Rightarrow> Some False
         | Some True \<Rightarrow>
             (let remaining_bits = total_rows mod 8
              in if remaining_bits = 0 then Some True
                 else (let mask = (ucast (push_bit remaining_bits (1 :: 32 word) - 1) :: u8)
                       in if full_bytes < length bm
                          then Some (bm ! full_bytes AND mask = mask)
                          else None)))"

subsection \<open>The full refresh\<close>

text \<open>The two loops of the replay; both counters are \<^verbatim>\<open>uint16_t\<close>.\<close>

partial_function (option) replay_row :: "config \<Rightarrow> u16 \<Rightarrow> u16 \<Rightarrow> eink \<Rightarrow> eink option" where
  "replay_row cfg y x s =
     (if unat x < SCREEN_WIDTH cfg
      then do {
             is_black \<leftarrow> get_full_frame_pixel cfg x y s;
             replay_row cfg y (x + 1) (emit (WritePixel (unat x) (unat y) is_black) s)
           }
      else Some s)"

partial_function (option) replay_rows :: "config \<Rightarrow> u16 \<Rightarrow> eink \<Rightarrow> eink option" where
  "replay_rows cfg y s =
     (if unat y < SCREEN_HEIGHT cfg
      then do {
             t \<leftarrow> replay_row cfg y 0 s;
             replay_rows cfg (y + 1) t
           }
      else Some s)"

declare replay_row.simps [code]

declare replay_rows.simps [code]

definition perform_full_refresh :: "config \<Rightarrow> eink \<Rightarrow> eink option" where
  "perform_full_refresh cfg s =
     do {
       let s = emit (Println ''[E-INK] Executing scheduled full refresh'') s;
       let s = emit Hibernate s;
       let s = emit Init s;
       let s = emit SetFullWindow s;
       let s = emit FirstPage s;
       s \<leftarrow> page_loop (more_pages cfg) (replay_rows cfg 0) s;
       Some (s\<lparr>partial_update_count := 0,
               full_refresh_pending := False,
               full_refresh_row_bitmap := replicate (length (full_refresh_row_bitmap s)) 0\<rparr>)
     }"

definition schedule_full_refresh_request :: "eink \<Rightarrow> eink" where
  "schedule_full_refresh_request s =
     (if full_refresh_pending s then s
      else s\<lparr>full_refresh_pending := True,
              full_refresh_row_bitmap := replicate (length (full_refresh_row_bitmap s)) 0\<rparr>)"

definition eink_force_full_refresh :: "config \<Rightarrow> eink \<Rightarrow> eink" where
  "eink_force_full_refresh cfg s =
     (if full_refresh_pending s then s
      else if MAX_PARTIAL_UPDATES cfg \<le> unat (partial_update_count s)
           then emit InvalidateScreen (schedule_full_refresh_request s)
           else s)"

subsection \<open>The flush callback\<close>

text \<open>
  The pixel buffer \<open>px_map\<close> of a flush is a store from byte offsets to bytes: an
  offset it does not map is outside the buffer the toolkit handed over, and reading it
  has no defined outcome. The result of \<^verbatim>\<open>malloc\<close> is \<open>None\<close> for a null
  pointer and \<open>Some junk\<close> for a fresh block whose byte \<open>i\<close> holds \<open>junk i\<close>
  (its content is not initialised).

  The innermost loop body of the conversion (\<open>bitno\<close> is the counter \<^verbatim>\<open>bit\<close>
  of the source): the pixel \<open>byte_x * 8 + bitno\<close> of row
  \<open>y\<close>. The sum stays below \<open>2 ^ 32\<close>, since \<open>byte_x\<close> is below the stride.
\<close>

fun convert_bit ::
  "config \<Rightarrow> lv_area \<Rightarrow> (nat \<Rightarrow> u8 option) \<Rightarrow> nat \<Rightarrow> nat \<Rightarrow> nat \<Rightarrow> nat \<Rightarrow> nat
     \<Rightarrow> u8 \<times> eink \<Rightarrow> (u8 \<times> eink) option" where
  "convert_bit cfg area px_map w lvgl_stride y byte_x bitno (epd_byte, s) =
     (let x = byte_x * 8 + bitno
      in if x < w
         then (let lvgl_byte_idx = (y * lvgl_stride + x div 8) mod 2 ^ 32;
                   lvgl_bit = 7 - x mod 8
               in case px_map (8 + lvgl_byte_idx) of
                    None \<Rightarrow> None
                  | Some src \<Rightarrow>
                      (let pixel = drop_bit lvgl_bit src AND 1;
                           is_black = (pixel = 0);
                           epd_byte = (if is_black then epd_byte OR drop_bit bitno 0x80
                                       else epd_byte)
                       in map_option (Pair epd_byte)
                            (set_full_frame_pixel cfg (word_of_int (x1 area + int x))
                               (word_of_int (y1 area + int y)) is_black s)))
         else Some (epd_byte, s))"

fun convert_byte ::
  "config \<Rightarrow> lv_area \<Rightarrow> (nat \<Rightarrow> u8 option) \<Rightarrow> nat \<Rightarrow> nat \<Rightarrow> nat \<Rightarrow> nat \<Rightarrow> nat
     \<Rightarrow> u8 list \<times> eink \<Rightarrow> (u8 list \<times> eink) option" where
  "convert_byte cfg area px_map w epd_stride lvgl_stride y byte_x (epd_buffer, s) =
     (case for_range [0..<8] (convert_bit cfg area px_map w lvgl_stride y byte_x) (0, s) of
        None \<Rightarrow> None
      | Some (epd_byte, t) \<Rightarrow>
          (let idx = (y * epd_stride + byte_x) mod 2 ^ 32
           in if idx < length epd_buffer
              then Some (epd_buffer[idx := epd_byte], t)
              else None))"

definition convert_rows ::
  "config \<Rightarrow> lv_area \<Rightarrow> (nat \<Rightarrow> u8 option) \<Rightarrow> nat \<Rightarrow> nat \<Rightarrow> nat \<Rightarrow> nat
     \<Rightarrow> u8 list \<times> eink \<Rightarrow> (u8 list \<times> eink) option" where
  "convert_rows cfg area px_map w h epd_stride lvgl_stride =
     for_range [0..<h] (\<lambda>y.
       for_range [0..<epd_stride] (convert_byte cfg area px_map w epd_stride lvgl_stride y))"

text \<open>The drawing loops inside the page cycle.\<close>

definition draw_bit :: "lv_area \<Rightarrow> nat \<Rightarrow> nat \<Rightarrow> nat \<Rightarrow> u8 \<Rightarrow> nat \<Rightarrow> eink \<Rightarrow> eink option" where
  "draw_bit area w y byte_x data_byte bitno s =
     (let x = byte_x * 8 + bitno
      in if x < w
         then (let is_black = (data_byte AND drop_bit bitno 0x80 \<noteq> 0)
               in Some (emit (WritePixel (u32 (x1 area + int x)) (u32 (y1 area + int y))
                                is_black) s))
         else Some s)"

definition draw_byte :: "lv_area \<Rightarrow> nat \<Rightarrow> nat \<Rightarrow> u8 list \<Rightarrow> nat \<Rightarrow> nat \<Rightarrow> eink \<Rightarrow> eink option" where
  "draw_byte area w epd_stride epd_buffer y byte_x s =
     (let idx = (y * epd_stride + byte_x) mod 2 ^ 32
      in if idx < length epd_buffer
         then for_range [0..<8] (draw_bit area w y byte_x (epd_buffer ! idx)) s
         else None)"

definition draw_rows :: "lv_area \<Rightarrow> nat \<Rightarrow> nat \<Rightarrow> nat \<Rightarrow> u8 list \<Rightarrow> eink \<Rightarrow> eink option" where
  "draw_rows area w h epd_stride epd_buffer =
     for_range [0..<h] (\<lambda>y.
       for_range [0..<epd_stride] (draw_byte area w epd_stride epd_buffer y))"

text \<open>
  \<^verbatim>\<open>my_disp_flush\<close>. The width and height are the 32-bit unsigned values of
  \<^verbatim>\<open>x2 - x1 + 1\<close> and \<^verbatim>\<open>y2 - y1 + 1\<close>; the row span handed to
  \<^verbatim>\<open>mark_rows_covered\<close> is converted to \<^verbatim>\<open>uint16_t\<close>.
\<close>

definition my_disp_flush ::
  "config \<Rightarrow> lv_area \<Rightarrow> (nat \<Rightarrow> u8 option) \<Rightarrow> (nat \<Rightarrow> u8) option \<Rightarrow> eink \<Rightarrow> eink option" where
  "my_disp_flush cfg area px_map malloc_result s =
     (let w = u32 (x2 area - x1 area + 1);
          h = u32 (y2 area - y1 area + 1);
          s = emit (SetPartialWindow (x1 area) (y1 area) w h) s;
          s = s\<lparr>partial_update_count := partial_update_count s + 1\<rparr>;
          epd_stride = ((w + 7) mod 2 ^ 32) div 8;
          buffer_size = (epd_stride * h) mod 2 ^ 32
      in do {
           s \<leftarrow> (case malloc_result of
                  Some junk \<Rightarrow>
                    do {
                      let epd_buffer = map junk [0..<buffer_size];
                      let lvgl_stride = ((w + 7) mod 2 ^ 32) div 8;
                      (epd_buffer, s) \<leftarrow>
                        convert_rows cfg area px_map w h epd_stride lvgl_stride (epd_buffer, s);
                      page_loop (more_pages cfg) (draw_rows area w h epd_stride epd_buffer)
                        (emit FirstPage s)
                    }
                | None \<Rightarrow>
                    page_loop (more_pages cfg) Some
                      (emit FirstPage
                         (emit (Println ''[ERROR] Failed to allocate EPD buffer!'') s)));
           s \<leftarrow> (if full_refresh_pending s
                 then do {
                        s \<leftarrow> mark_rows_covered cfg (word_of_int (y1 area))
                               (word_of_int (y2 area)) s;
                        covered \<leftarrow> all_rows_covered cfg s;
                        if covered then perform_full_refresh cfg s else Some s
                      }
                 else Some s);
           Some (emit FlushReady s)
         })"

subsection \<open>Sequences of calls\<close>

text \<open>
  The two entry points, as the toolkit and the main loop call them: a flush with its
  rectangle, pixel buffer and the outcome of its allocation, and the threshold check.
\<close>

datatype call =
    Flush lv_area "nat \<Rightarrow> u8 option" "(nat \<Rightarrow> u8) option"
  | ThresholdCheck

fun step :: "config \<Rightarrow> call \<Rightarrow> eink \<Rightarrow> eink option" where
  "step cfg (Flush area px_map malloc_result) s = my_disp_flush cfg area px_map malloc_result s"
| "step cfg ThresholdCheck s = Some (eink_force_full_refresh cfg s)"

fun run :: "config \<Rightarrow> call list \<Rightarrow> eink \<Rightarrow> eink option" where
  "run cfg [] s = Some s"
| "run cfg (c # cs) s = (case step cfg c s of None \<Rightarrow> None | Some t \<Rightarrow> run cfg cs t)"

subsection \<open>Notions for the statements\<close>

text \<open>
  The panel dimensions fit the \<^verbatim>\<open>uint16_t\<close> coordinates and counters of the code.
\<close>

definition cfg_ok :: "config \<Rightarrow> bool" where
  "cfg_ok cfg \<longleftrightarrow> SCREEN_WIDTH cfg < 2 ^ 16 \<and> SCREEN_HEIGHT cfg < 2 ^ 16"

text \<open>
  The two arrays have the sizes of their declarations.
\<close>

definition state_ok :: "config \<Rightarrow> eink \<Rightarrow> bool" where
  "state_ok cfg s \<longleftrightarrow>
     length (full_frame_buffer s) = (SCREEN_WIDTH cfg * SCREEN_HEIGHT cfg + 7) div 8
     \<and> length (full_refresh_row_bitmap s) = (SCREEN_HEIGHT cfg + 7) div 8"

text \<open>
  The bit of a row in the row bitmap, as \<^verbatim>\<open>mark_rows_covered\<close> addresses it: byte
  \<open>row div 8\<close>, mask \<open>1 << (row mod 8)\<close>.
\<close>

definition row_covered :: "u8 list \<Rightarrow> nat \<Rightarrow> bool" where
  "row_covered bm row = bit (bm ! (row div 8)) (row mod 8)"

text \<open>
  The bit with index \<open>p\<close> of the shadow framebuffer, most significant bit first, and
  the bit of the pixel \<open>(x, y)\<close>, as \<^verbatim>\<open>get_full_frame_pixel\<close> addresses it: bit index
  \<open>y * SCREEN_WIDTH + x\<close>.
\<close>

definition fb_bit :: "u8 list \<Rightarrow> nat \<Rightarrow> bool" where
  "fb_bit fb p = bit (fb ! (p div 8)) (7 - p mod 8)"

definition shadow_pixel :: "config \<Rightarrow> u8 list \<Rightarrow> nat \<Rightarrow> nat \<Rightarrow> bool" where
  "shadow_pixel cfg fb x y =
     bit (fb ! ((y * SCREEN_WIDTH cfg + x) div 8)) (7 - (y * SCREEN_WIDTH cfg + x) mod 8)"

text \<open>
  Several external calls in a row.
\<close>

definition emits :: "event list \<Rightarrow> eink \<Rightarrow> eink" where
  "emits evs s = s\<lparr>trace := trace s @ evs\<rparr>"

text \<open>
  The pixels of a framebuffer in row-major order, as calls of \<^verbatim>\<open>writePixel\<close>, and
  the external calls of one full refresh that replays the framebuffer \<open>fb\<close>.
\<close>

definition replay_events :: "config \<Rightarrow> u8 list \<Rightarrow> event list" where
  "replay_events cfg fb =
     concat (map (\<lambda>y. map (\<lambda>x. WritePixel x y (shadow_pixel cfg fb x y)) [0..<SCREEN_WIDTH cfg])
               [0..<SCREEN_HEIGHT cfg])"

definition refresh_events :: "config \<Rightarrow> u8 list \<Rightarrow> event list" where
  "refresh_events cfg fb =
     [Println ''[E-INK] Executing scheduled full refresh'', Hibernate, Init, SetFullWindow,
      FirstPage]
     @ concat (replicate (Suc (more_pages cfg)) (replay_events cfg fb @ [NextPage]))"

text \<open>
  The number of full refreshes executed so far: \<^verbatim>\<open>perform_full_refresh\<close> is the only
  caller of \<^verbatim>\<open>display.hibernate()\<close>, and calls it once.
\<close>

definition refresh_count :: "eink \<Rightarrow> nat" where
  "refresh_count s = count_list (trace s) Hibernate"

text \<open>
  The rectangle lies within the panel.
\<close>

definition area_ok :: "config \<Rightarrow> lv_area \<Rightarrow> bool" where
  "area_ok cfg area \<longleftrightarrow>
     0 \<le> x1 area \<and> x1 area \<le> x2 area \<and> x2 area < int (SCREEN_WIDTH cfg)
     \<and> 0 \<le> y1 area \<and> y1 area \<le> y2 area \<and> y2 area < int (SCREEN_HEIGHT cfg)"

text \<open>
  The locals \<^verbatim>\<open>w\<close>, \<^verbatim>\<open>h\<close> and \<^verbatim>\<open>epd_stride\<close> of \<^verbatim>\<open>my_disp_flush\<close>.
\<close>

definition area_width :: "lv_area \<Rightarrow> nat" where
  "area_width area = u32 (x2 area - x1 area + 1)"

definition area_height :: "lv_area \<Rightarrow> nat" where
  "area_height area = u32 (y2 area - y1 area + 1)"

definition area_stride :: "lv_area \<Rightarrow> nat" where
  "area_stride area = ((area_width area + 7) mod 2 ^ 32) div 8"

text \<open>
  The pixel \<open>(x, y)\<close> of a flush is black: its bit in the source buffer (behind the
  8-byte palette, \<open>stride\<close> bytes per row, most significant bit first) is 0.
\<close>

definition source_black :: "(nat \<Rightarrow> u8 option) \<Rightarrow> nat \<Rightarrow> nat \<Rightarrow> nat \<Rightarrow> bool" where
  "source_black px_map stride x y \<longleftrightarrow>
     \<not> bit (the (px_map (8 + y * stride + x div 8))) (7 - x mod 8)"

text \<open>
  The panel pixel \<open>(X, Y)\<close> lies in the rectangle, and the colour a flush of the
  rectangle gives it: that of the source pixel \<open>(X - x1, Y - y1)\<close>.
\<close>

definition in_area :: "lv_area \<Rightarrow> nat \<Rightarrow> nat \<Rightarrow> bool" where
  "in_area area X Y \<longleftrightarrow>
     x1 area \<le> int X \<and> int X \<le> x2 area \<and> y1 area \<le> int Y \<and> int Y \<le> y2 area"

definition flushed_black :: "lv_area \<Rightarrow> (nat \<Rightarrow> u8 option) \<Rightarrow> nat \<Rightarrow> nat \<Rightarrow> bool" where
  "flushed_black area px_map X Y =
     source_black px_map (area_stride area) (nat (int X - x1 area)) (nat (int Y - y1 area))"

text \<open>
  The pixel buffer holds every byte that carries a pixel of the rectangle, and the
  offsets of these bytes.
\<close>

definition src_ok :: "(nat \<Rightarrow> u8 option) \<Rightarrow> nat \<Rightarrow> nat \<Rightarrow> nat \<Rightarrow> bool" where
  "src_ok px_map stride w h \<longleftrightarrow>
     (\<forall>x y. x < w \<longrightarrow> y < h \<longrightarrow> px_map (8 + y * stride + x div 8) \<noteq> None)"

definition src_bytes :: "nat \<Rightarrow> nat \<Rightarrow> nat \<Rightarrow> nat set" where
  "src_bytes stride w h = (\<lambda>(x, y). 8 + y * stride + x div 8) ` ({..<w} \<times> {..<h})"

text \<open>
  The \<^verbatim>\<open>writePixel\<close> calls of one page of the windowed update, and the external calls
  of the whole windowed update of a region from the converted buffer.
\<close>

definition draw_events :: "lv_area \<Rightarrow> nat \<Rightarrow> nat \<Rightarrow> nat \<Rightarrow> u8 list \<Rightarrow> event list" where
  "draw_events area w h stride buf =
     concat (map (\<lambda>y. concat (map (\<lambda>byte_x. concat (map (\<lambda>k.
         if byte_x * 8 + k < w
         then [WritePixel (u32 (x1 area + int (byte_x * 8 + k))) (u32 (y1 area + int y))
                 (buf ! (y * stride + byte_x) AND drop_bit k 0x80 \<noteq> 0)]
         else []) [0..<8])) [0..<stride])) [0..<h])"

definition page_events :: "config \<Rightarrow> lv_area \<Rightarrow> u8 list \<Rightarrow> event list" where
  "page_events cfg area buf =
     FirstPage #
     concat (replicate (Suc (more_pages cfg))
       (draw_events area (area_width area) (area_height area) (area_stride area) buf @ [NextPage]))"

text \<open>
  The external calls of a flush whose allocation fails, up to the coverage check: the
  window, the error message and a page cycle that draws nothing.
\<close>

definition failed_update_events :: "config \<Rightarrow> lv_area \<Rightarrow> event list" where
  "failed_update_events cfg area =
     [SetPartialWindow (x1 area) (y1 area) (area_width area) (area_height area),
      Println ''[ERROR] Failed to allocate EPD buffer!'', FirstPage]
     @ replicate (Suc (more_pages cfg)) NextPage"

text \<open>
  A call the toolkit may make: the rectangle of a flush lies within the panel and its
  pixel buffer holds the pixels of the rectangle. A flush whose allocation fails reads
  neither.
\<close>

fun good_call :: "config \<Rightarrow> call \<Rightarrow> bool" where
  "good_call cfg (Flush area px_map (Some junk)) =
     (area_ok cfg area
      \<and> src_ok px_map (area_stride area) (area_width area) (area_height area))"
| "good_call cfg (Flush area px_map None) = True"
| "good_call cfg ThresholdCheck = True"

text \<open>
  The colour a call gives the panel pixel \<open>(X, Y)\<close>, if any: only a flush whose
  allocation succeeds paints, and only inside its rectangle. \<open>last_flushed\<close> follows the
  words of the specification: the most recent colour flushed to a pixel by a sequence of
  calls (the list is in the order of the calls).
\<close>

fun painted_by :: "call \<Rightarrow> nat \<Rightarrow> nat \<Rightarrow> bool option" where
  "painted_by (Flush area px_map (Some junk)) X Y =
     (if in_area area X Y then Some (flushed_black area px_map X Y) else None)"
| "painted_by (Flush area px_map None) X Y = None"
| "painted_by ThresholdCheck X Y = None"

fun last_flushed :: "call list \<Rightarrow> nat \<Rightarrow> nat \<Rightarrow> bool option" where
  "last_flushed [] X Y = None"
| "last_flushed (c # cs) X Y =
     (case last_flushed cs X Y of Some b \<Rightarrow> Some b | None \<Rightarrow> painted_by c X Y)"

subsection \<open>The parts of the flush callback\<close>

text \<open>
  The three parts of \<^verbatim>\<open>my_disp_flush\<close>: the window and the counter, the update of the
  region (the branch on the allocation), and the coverage check.
\<close>

definition flush_start :: "lv_area \<Rightarrow> eink \<Rightarrow> eink" where
  "flush_start area s =
     (emit (SetPartialWindow (x1 area) (y1 area) (area_width area) (area_height area)) s)
       \<lparr>partial_update_count := partial_update_count s + 1\<rparr>"

definition update_region ::
  "config \<Rightarrow> lv_area \<Rightarrow> (nat \<Rightarrow> u8 option) \<Rightarrow> (nat \<Rightarrow> u8) option \<Rightarrow> eink \<Rightarrow> eink option" where
  "update_region cfg area px_map malloc_result s =
     (case malloc_result of
        Some junk \<Rightarrow>
          (case convert_rows cfg area px_map (area_width area) (area_height area)
                  (area_stride area) (area_stride area)
                  (map junk [0..<(area_stride area * area_height area) mod 2 ^ 32], s) of
             None \<Rightarrow> None
           | Some (epd_buffer, t) \<Rightarrow>
               page_loop (more_pages cfg)
                 (draw_rows area (area_width area) (area_height area) (area_stride area) epd_buffer)
                 (emit FirstPage t))
      | None \<Rightarrow>
          page_loop (more_pages cfg) Some
            (emit FirstPage (emit (Println ''[ERROR] Failed to allocate EPD buffer!'') s)))"

definition check_coverage :: "config \<Rightarrow> lv_area \<Rightarrow> eink \<Rightarrow> eink option" where
  "check_coverage cfg area s =
     (if full_refresh_pending s
      then (case mark_rows_covered cfg (word_of_int (y1 area)) (word_of_int (y2 area)) s of
              None \<Rightarrow> None
            | Some t \<Rightarrow>
                (case all_rows_covered cfg t of
                   None \<Rightarrow> None
                 | Some covered \<Rightarrow> if covered then perform_full_refresh cfg t else Some t))
      else Some s)"

subsection \<open>Invariants of the loops\<close>

text \<open>
  State \<open>t\<close> is state \<open>s\<close> with the framebuffer repainted: the pixels of the rectangle at
  \<open>(X0, Y0)\<close> selected by \<open>D\<close> hold the colour \<open>col\<close>, every other pixel of the panel is
  as in \<open>s\<close>.
\<close>

definition painted ::
  "config \<Rightarrow> nat \<Rightarrow> nat \<Rightarrow> (nat \<Rightarrow> nat \<Rightarrow> bool) \<Rightarrow> (nat \<Rightarrow> nat \<Rightarrow> bool) \<Rightarrow> eink \<Rightarrow> eink \<Rightarrow> bool" where
  "painted cfg X0 Y0 D col s t \<longleftrightarrow>
     (\<exists>fb'. t = s\<lparr>full_frame_buffer := fb'\<rparr>
        \<and> length fb' = length (full_frame_buffer s)
        \<and> (\<forall>X Y. X < SCREEN_WIDTH cfg \<longrightarrow> Y < SCREEN_HEIGHT cfg \<longrightarrow>
              shadow_pixel cfg fb' X Y =
                (if X0 \<le> X \<and> Y0 \<le> Y \<and> D (X - X0) (Y - Y0) then col (X - X0) (Y - Y0)
                 else shadow_pixel cfg (full_frame_buffer s) X Y)))"

text \<open>
  The pixels handled when the conversion loops stand at row \<open>y\<close>, byte \<open>bx\<close>, bit \<open>k\<close>;
  the byte \<open>e\<close> built so far for byte \<open>bx\<close> of row \<open>y\<close>, after \<open>k\<close> bits; and the first
  \<open>n\<close> bytes of the converted buffer being final.
\<close>

definition progress :: "nat \<Rightarrow> nat \<Rightarrow> nat \<Rightarrow> nat \<Rightarrow> nat \<Rightarrow> nat \<Rightarrow> bool" where
  "progress w y bx k a b \<longleftrightarrow> a < w \<and> (b < y \<or> (b = y \<and> a < bx * 8 + k))"

definition byte_bits :: "(nat \<Rightarrow> u8 option) \<Rightarrow> nat \<Rightarrow> nat \<Rightarrow> nat \<Rightarrow> nat \<Rightarrow> nat \<Rightarrow> u8 \<Rightarrow> bool" where
  "byte_bits px_map stride w y bx k e \<longleftrightarrow>
     (\<forall>j<8. bit e (7 - j) = (j < k \<and> bx * 8 + j < w \<and> source_black px_map stride (bx * 8 + j) y))"

definition conv_good :: "(nat \<Rightarrow> u8 option) \<Rightarrow> nat \<Rightarrow> nat \<Rightarrow> u8 list \<Rightarrow> nat \<Rightarrow> bool" where
  "conv_good px_map stride w buf n \<longleftrightarrow>
     (\<forall>i<n. byte_bits px_map stride w (i div stride) (i mod stride) 8 (buf ! i))"

text \<open>
  What updating a region leaves alone: the counter, the pending flag, the row bitmap and
  the size of the framebuffer; it only adds drawing calls to the trace.
\<close>

fun draw_event :: "event \<Rightarrow> bool" where
  "draw_event FirstPage = True"
| "draw_event NextPage = True"
| "draw_event (WritePixel x y c) = True"
| "draw_event (Println msg) = True"
| "draw_event e = False"

definition region_rel :: "eink \<Rightarrow> eink \<Rightarrow> bool" where
  "region_rel s t \<longleftrightarrow>
     partial_update_count t = partial_update_count s
     \<and> full_refresh_pending t = full_refresh_pending s
     \<and> full_refresh_row_bitmap t = full_refresh_row_bitmap s
     \<and> length (full_frame_buffer t) = length (full_frame_buffer s)
     \<and> (\<exists>evs. trace t = trace s @ evs \<and> list_all draw_event evs)"

subsection \<open>Examples\<close>

text \<open>
  A small panel on which the statements below are run: 16 by 10 pixels, threshold 2.
\<close>

definition small_panel :: config where
  "small_panel =
     \<lparr>SCREEN_WIDTH = 16, SCREEN_HEIGHT = 10, MAX_PARTIAL_UPDATES = 2, more_pages = 0\<rparr>"

text \<open>
  A pending state with rows 0 to 4 covered, the lower and the upper rows of the panel,
  an empty pixel buffer, and the states after a flush of the lower and of the upper rows
  whose allocation fails.
\<close>

definition armed_example :: eink where
  "armed_example =
     \<lparr>partial_update_count = 3, full_frame_buffer = replicate 20 0,
      full_refresh_pending = True, full_refresh_row_bitmap = [0x1F, 0], trace = []\<rparr>"

definition lower_rows :: lv_area where
  "lower_rows = \<lparr>x1 = 0, y1 = 5, x2 = 15, y2 = 9\<rparr>"

definition upper_rows :: lv_area where
  "upper_rows = \<lparr>x1 = 0, y1 = 0, x2 = 15, y2 = 3\<rparr>"

definition no_pixels :: "nat \<Rightarrow> u8 option" where
  "no_pixels = (\<lambda>i. None)"

definition fired_example :: eink where
  "fired_example =
     \<lparr>partial_update_count = 0, full_frame_buffer = replicate 20 0,
      full_refresh_pending = False, full_refresh_row_bitmap = [0, 0],
      trace = failed_update_events small_panel lower_rows
              @ refresh_events small_panel (replicate 20 0) @ [FlushReady]\<rparr>"

definition waiting_example :: eink where
  "waiting_example =
     \<lparr>partial_update_count = 4, full_frame_buffer = replicate 20 0,
      full_refresh_pending = True, full_refresh_row_bitmap = [0x1F, 0],
      trace = failed_update_events small_panel upper_rows @ [FlushReady]\<rparr>"

text \<open>
  A 10 by 2 window with its pixel buffer (an 8-byte palette and two rows of two bytes),
  the content of a fresh allocation, the flush of that window, and a flush of the whole
  panel.
\<close>

definition window_example :: lv_area where
  "window_example = \<lparr>x1 = 3, y1 = 2, x2 = 12, y2 = 3\<rparr>"

definition pixels_example :: "nat \<Rightarrow> u8 option" where
  "pixels_example i =
     (if i < 8 then Some 0
      else if i < 12 then Some ([0xA5, 0x7F, 0xFF, 0x00] ! (i - 8))
      else None)"

definition junk_example :: "nat \<Rightarrow> u8" where
  "junk_example i = 0x55"

definition one_flush :: call where
  "one_flush = Flush window_example pixels_example (Some junk_example)"

definition full_window :: lv_area where
  "full_window = \<lparr>x1 = 0, y1 = 0, x2 = 15, y2 = 9\<rparr>"

definition full_pixels :: "nat \<Rightarrow> u8 option" where
  "full_pixels i = (if i < 28 then Some (if even i then 0xF0 else 0x0F) else None)"

text \<open>The pending state of above with its counter at the largest value of a \<^verbatim>\<open>uint8_t\<close>.\<close>

definition full_counter_example :: eink where
  "full_counter_example = armed_example\<lparr>partial_update_count := 255\<rparr>"

section \<open>Basic facts\<close>

subsection \<open>Bytes and bits\<close>

lemma byte_full_iff: "(w :: u8) = 0xFF \<longleftrightarrow> (\<forall>b<8. bit w b)"
proof -
  have "(0xFF :: u8) = - 1" by simp
  then show ?thesis
    by (auto simp add: bit_eq_iff bit_minus_1_iff dest: bit_imp_le_length)
qed

lemma low_mask_conv: "r < 8 \<Longrightarrow> (ucast (push_bit r (1 :: 32 word) - 1) :: u8) = mask r"
  apply (simp add: push_bit_eq_mult flip: mask_eq_exp_minus_1)
  apply (rule bit_word_eqI)
  apply (auto simp add: bit_ucast_iff bit_mask_iff)
  done

lemma and_mask_full_iff: "r \<le> 8 \<Longrightarrow> ((w :: u8) AND mask r = mask r) \<longleftrightarrow> (\<forall>b<r. bit w b)"
  by (auto simp add: bit_eq_iff bit_and_iff bit_mask_iff) (metis le_trans not_less not_le less_le_trans)

lemma full_bytes_loop_upt:
  "n \<le> length bm \<Longrightarrow> full_bytes_loop bm [k..<n] = Some (\<forall>i. k \<le> i \<and> i < n \<longrightarrow> bm ! i = 0xFF)"
proof (induction "n - k" arbitrary: k)
  case 0
  then show ?case by auto
next
  case (Suc d)
  then have "k < n" by simp
  then have upt: "[k..<n] = k # [Suc k..<n]" by (simp add: upt_conv_Cons)
  have ih: "full_bytes_loop bm [Suc k..<n] = Some (\<forall>i. Suc k \<le> i \<and> i < n \<longrightarrow> bm ! i = 0xFF)"
    using Suc by simp
  show ?case
  proof (cases "bm ! k = 0xFF")
    case True
    have "(\<forall>i. k \<le> i \<and> i < n \<longrightarrow> bm ! i = 0xFF) = (\<forall>i. Suc k \<le> i \<and> i < n \<longrightarrow> bm ! i = 0xFF)"
      using True by (metis Suc_leD Suc_leI le_neq_implies_less)
    then show ?thesis using upt ih True \<open>k < n\<close> Suc.prems by simp
  next
    case False
    then show ?thesis using upt \<open>k < n\<close> Suc.prems by auto
  qed
qed

lemma row_covered_update:
  "k < length bm \<Longrightarrow> r div 8 = k \<Longrightarrow>
   row_covered (bm[k := bm ! k OR push_bit (r mod 8) 1]) i = (row_covered bm i \<or> i = r)"
proof (cases "i div 8 = k")
  case True
  assume k: "k < length bm" and r: "r div 8 = k"
  have "i = r \<longleftrightarrow> i mod 8 = r mod 8"
    using True r by (metis div_mult_mod_eq)
  moreover have "bit (push_bit (r mod 8) 1 :: u8) (i mod 8) \<longleftrightarrow> i mod 8 = r mod 8"
    by (auto simp add: bit_exp_iff possible_bit_word)
  ultimately show ?thesis
    using True k by (simp add: row_covered_def bit_or_iff)
next
  case False
  assume r: "r div 8 = k"
  then have "i \<noteq> r" using False by auto
  then show ?thesis using False by (simp add: row_covered_def)
qed

lemma unat_u16_div8: "unat ((row :: u16) div 8) = unat row div 8"
  by (simp add: unat_div)

lemma unat_u16_mod8: "unat ((row :: u16) mod 8) = unat row mod 8"
  by (simp add: unat_mod)

lemma unat_u16_succ: "unat (row :: u16) < n \<Longrightarrow> n < 65536 \<Longrightarrow> unat (row + 1) = Suc (unat row)"
  by (simp add: unat_word_ariths)

lemma mark_rows_loop_bitmap:
  assumes H: "SCREEN_HEIGHT cfg < 65536"
    and len: "(SCREEN_HEIGHT cfg + 7) div 8 \<le> length (full_refresh_row_bitmap s)"
  shows "\<exists>bm'. mark_rows_loop cfg row last_row s = Some (s\<lparr>full_refresh_row_bitmap := bm'\<rparr>)
           \<and> length bm' = length (full_refresh_row_bitmap s)
           \<and> (\<forall>i. row_covered bm' i =
                  (row_covered (full_refresh_row_bitmap s) i
                   \<or> (unat row \<le> i \<and> i \<le> unat last_row \<and> i < SCREEN_HEIGHT cfg)))"
  using len
proof (induction "SCREEN_HEIGHT cfg - unat row" arbitrary: row s rule: less_induct)
  case less
  let ?bm = "full_refresh_row_bitmap s"
  show ?case
  proof (cases "row \<le> last_row \<and> unat row < SCREEN_HEIGHT cfg")
    case False
    then have none: "\<And>i. \<not> (unat row \<le> i \<and> i \<le> unat last_row \<and> i < SCREEN_HEIGHT cfg)"
      by (auto simp add: word_le_nat_alt)
    have "mark_rows_loop cfg row last_row s = Some (s\<lparr>full_refresh_row_bitmap := ?bm\<rparr>)"
      using False by (subst mark_rows_loop.simps) auto
    then show ?thesis using none by blast
  next
    case True
    then have lt: "unat row < SCREEN_HEIGHT cfg" and wle: "row \<le> last_row" by auto
    define k where "k = unat row div 8"
    define bm1 where "bm1 = ?bm[k := ?bm ! k OR push_bit (unat row mod 8) 1]"
    define s1 where "s1 = s\<lparr>full_refresh_row_bitmap := bm1\<rparr>"
    have k: "k < length ?bm"
      using lt less.prems unfolding k_def by arith
    have step: "mark_rows_loop cfg row last_row s = mark_rows_loop cfg (row + 1) last_row s1"
      using True k
      by (subst mark_rows_loop.simps)
         (simp add: Let_def unat_u16_div8 unat_u16_mod8 k_def bm1_def s1_def)
    have suc: "unat (row + 1) = Suc (unat row)"
      using lt H by (rule unat_u16_succ)
    have len1: "(SCREEN_HEIGHT cfg + 7) div 8 \<le> length (full_refresh_row_bitmap s1)"
      using less.prems by (simp add: s1_def bm1_def)
    have "SCREEN_HEIGHT cfg - unat (row + 1) < SCREEN_HEIGHT cfg - unat row"
      using lt suc by simp
    from less.hyps [OF this len1] obtain bm' where
      r: "mark_rows_loop cfg (row + 1) last_row s1 = Some (s1\<lparr>full_refresh_row_bitmap := bm'\<rparr>)"
      and l: "length bm' = length (full_refresh_row_bitmap s1)"
      and b: "\<And>i. row_covered bm' i =
                (row_covered (full_refresh_row_bitmap s1) i
                 \<or> (unat (row + 1) \<le> i \<and> i \<le> unat last_row \<and> i < SCREEN_HEIGHT cfg))"
      by blast
    have upd: "\<And>i. row_covered bm1 i = (row_covered ?bm i \<or> i = unat row)"
      unfolding bm1_def using k by (rule row_covered_update) (simp add: k_def)
    have le: "unat row \<le> unat last_row"
      using wle by (simp add: word_le_nat_alt)
    have "mark_rows_loop cfg row last_row s = Some (s\<lparr>full_refresh_row_bitmap := bm'\<rparr>)"
      using step r by (simp add: s1_def)
    moreover have "length bm' = length ?bm"
      using l by (simp add: s1_def bm1_def)
    moreover have "\<forall>i. row_covered bm' i =
        (row_covered ?bm i \<or> (unat row \<le> i \<and> i \<le> unat last_row \<and> i < SCREEN_HEIGHT cfg))"
    proof
      fix i
      have "row_covered bm' i =
          ((row_covered ?bm i \<or> i = unat row)
           \<or> (Suc (unat row) \<le> i \<and> i \<le> unat last_row \<and> i < SCREEN_HEIGHT cfg))"
        using b [of i] upd [of i] suc by (simp add: s1_def)
      also have "\<dots> = (row_covered ?bm i
           \<or> (unat row \<le> i \<and> i \<le> unat last_row \<and> i < SCREEN_HEIGHT cfg))"
        using le lt by auto
      finally show "row_covered bm' i =
          (row_covered ?bm i \<or> (unat row \<le> i \<and> i \<le> unat last_row \<and> i < SCREEN_HEIGHT cfg))" .
    qed
    ultimately show ?thesis by blast
  qed
qed


lemma bytes_full_rows:
  "(\<forall>i<n. bm ! i = (0xFF :: u8)) \<longleftrightarrow> (\<forall>row<8 * n. row_covered bm row)"
proof
  assume a: "\<forall>i<n. bm ! i = 0xFF"
  show "\<forall>row<8 * n. row_covered bm row"
  proof (intro allI impI)
    fix row assume "row < 8 * n"
    then have "row div 8 < n" by arith
    with a have "bm ! (row div 8) = 0xFF" by blast
    then have "\<forall>b<8. bit (bm ! (row div 8)) b" by (simp only: byte_full_iff)
    then show "row_covered bm row" by (simp add: row_covered_def)
  qed
next
  assume a: "\<forall>row<8 * n. row_covered bm row"
  show "\<forall>i<n. bm ! i = 0xFF"
  proof (intro allI impI)
    fix i assume i: "i < n"
    have "bit (bm ! i) b" if "b < 8" for b
    proof -
      have "8 * i + b < 8 * n" using i that by arith
      with a have "row_covered bm (8 * i + b)" by blast
      then show ?thesis using that by (simp add: row_covered_def)
    qed
    then show "bm ! i = 0xFF" by (simp only: byte_full_iff) blast
  qed
qed

lemma rows_split:
  "(\<forall>row<(H::nat). P row) \<longleftrightarrow> (\<forall>row<8 * (H div 8). P row) \<and> (\<forall>b<H mod 8. P (8 * (H div 8) + b))"
    (is "?L \<longleftrightarrow> ?A \<and> ?B")
proof
  assume l: ?L
  have "?A"
  proof (intro allI impI)
    fix row assume "row < 8 * (H div 8)"
    then have "row < H" by arith
    with l show "P row" by blast
  qed
  moreover have "?B"
  proof (intro allI impI)
    fix b assume "b < H mod 8"
    then have "8 * (H div 8) + b < H" by arith
    with l show "P (8 * (H div 8) + b)" by blast
  qed
  ultimately show "?A \<and> ?B" by blast
next
  assume ab: "?A \<and> ?B"
  show ?L
  proof (intro allI impI)
    fix row assume row: "row < H"
    show "P row"
    proof (cases "row < 8 * (H div 8)")
      case True
      then show ?thesis using ab by blast
    next
      case False
      then have "row - 8 * (H div 8) < H mod 8" using row by arith
      with ab have "P (8 * (H div 8) + (row - 8 * (H div 8)))" by blast
      then show ?thesis using False by simp
    qed
  qed
qed

lemma all_rows_covered_iff:
  assumes H: "SCREEN_HEIGHT cfg < 65536"
    and len: "(SCREEN_HEIGHT cfg + 7) div 8 \<le> length (full_refresh_row_bitmap s)"
  shows "all_rows_covered cfg s =
           Some (\<forall>row<SCREEN_HEIGHT cfg. row_covered (full_refresh_row_bitmap s) row)"
proof -
  let ?H = "SCREEN_HEIGHT cfg"
  let ?bm = "full_refresh_row_bitmap s"
  let ?n = "?H div 8"
  let ?r = "?H mod 8"
  have n: "?n \<le> length ?bm" using len by arith
  have loop: "full_bytes_loop ?bm [0..<?n] = Some (\<forall>row<8 * ?n. row_covered ?bm row)"
    using full_bytes_loop_upt [OF n, of 0] by (simp add: bytes_full_rows)
  have tail: "(\<forall>b<?r. row_covered ?bm (8 * ?n + b)) \<longleftrightarrow> (\<forall>b<?r. bit (?bm ! ?n) b)"
    by (simp add: row_covered_def)
  have tr: "?H mod 65536 = ?H" using H by simp
  show ?thesis
  proof (cases "?r = 0")
    case True
    then show ?thesis
      using loop by (simp add: all_rows_covered_def Let_def tr rows_split [of ?H] split: bool.splits)
  next
    case False
    have r8: "?r < 8" by simp
    have nlt: "?n < length ?bm" using len False by arith
    have m: "(ucast (push_bit ?r (1 :: 32 word) - 1) :: u8) = mask ?r"
      using r8 by (rule low_mask_conv)
    then have m': "(ucast ((2 :: 32 word) ^ ?r - 1) :: u8) = mask ?r"
      by (simp add: push_bit_eq_mult)
    have "(?bm ! ?n AND mask ?r = mask ?r) \<longleftrightarrow> (\<forall>b<?r. bit (?bm ! ?n) b)"
      by (rule and_mask_full_iff) simp
    then show ?thesis
      using loop False nlt tail
      by (simp add: all_rows_covered_def Let_def tr m' rows_split [of ?H] split: bool.splits)
  qed
qed


lemma msb_mask_conv: "k < 8 \<Longrightarrow> drop_bit k (0x80 :: u8) = 2 ^ (7 - k)"
proof -
  assume k: "k < 8"
  have "(0x80 :: u8) = 2 ^ 7" by simp
  then show ?thesis using k by (simp only: drop_bit_exp_eq) (simp add: possible_bit_word)
qed

lemma and_msb_mask_iff: "k < 8 \<Longrightarrow> ((w :: u8) AND drop_bit k 0x80 \<noteq> 0) \<longleftrightarrow> bit w (7 - k)"
  by (simp only: msb_mask_conv and_exp_eq_0_iff_not_bit) simp

lemma pixel_index_bound: "x < W \<Longrightarrow> y < H \<Longrightarrow> y * W + x < W * (H :: nat)"
proof -
  assume x: "x < W" and y: "y < H"
  then have "Suc y \<le> H" by simp
  then have "Suc y * W \<le> H * W" by (rule mult_le_mono1)
  then show ?thesis using x by (simp add: mult.commute)
qed

lemma pixel_index_u32:
  "W < 65536 \<Longrightarrow> H < 65536 \<Longrightarrow> x < W \<Longrightarrow> y < H \<Longrightarrow> (y * W + x) mod 2 ^ 32 = y * W + (x :: nat)"
proof -
  assume W: "W < 65536" and H: "H < 65536" and x: "x < W" and y: "y < H"
  have "y * W + x < W * H" using x y by (rule pixel_index_bound)
  also have "W * H \<le> 65536 * 65536" using W H by (intro mult_le_mono) simp_all
  finally show ?thesis by simp
qed

lemma get_full_frame_pixel_ok:
  assumes "cfg_ok cfg" "state_ok cfg s" "unat x < SCREEN_WIDTH cfg" "unat y < SCREEN_HEIGHT cfg"
  shows "get_full_frame_pixel cfg x y s =
           Some (shadow_pixel cfg (full_frame_buffer s) (unat x) (unat y))"
proof -
  let ?W = "SCREEN_WIDTH cfg" and ?H = "SCREEN_HEIGHT cfg"
  let ?p = "unat y * ?W + unat x"
  have m: "?p mod 2 ^ 32 = ?p"
    using assms by (intro pixel_index_u32 [of ?W ?H]) (simp_all add: cfg_ok_def)
  have "?p < ?W * ?H" using assms(3,4) by (rule pixel_index_bound)
  then have "?p div 8 < length (full_frame_buffer s)"
    using assms(2) unfolding state_ok_def by arith
  then show ?thesis
    unfolding get_full_frame_pixel_def Let_def m shadow_pixel_def
    by (simp add: and_msb_mask_iff)
qed


lemma emits_simps [simp]:
  "partial_update_count (emits evs s) = partial_update_count s"
  "full_frame_buffer (emits evs s) = full_frame_buffer s"
  "full_refresh_pending (emits evs s) = full_refresh_pending s"
  "full_refresh_row_bitmap (emits evs s) = full_refresh_row_bitmap s"
  "trace (emits evs s) = trace s @ evs"
  by (simp_all add: emits_def)

lemma emit_emits: "emit e s = emits [e] s"
  by (simp add: emit_def emits_def)

lemma emits_emits: "emits b (emits a s) = emits (a @ b) s"
  by (simp add: emits_def)

lemma emits_Nil: "emits [] s = s"
  by (simp add: emits_def)

lemma state_ok_emits [simp]: "state_ok cfg (emits evs s) = state_ok cfg s"
  by (simp add: state_ok_def)

lemma replay_row_ok:
  assumes "cfg_ok cfg" "state_ok cfg s" "unat y < SCREEN_HEIGHT cfg"
  shows "replay_row cfg y x s =
           Some (emits (map (\<lambda>x. WritePixel x (unat y)
                               (shadow_pixel cfg (full_frame_buffer s) x (unat y)))
                          [unat x..<SCREEN_WIDTH cfg]) s)"
  using assms(2)
proof (induction "SCREEN_WIDTH cfg - unat x" arbitrary: x s rule: less_induct)
  case less
  show ?case
  proof (cases "unat x < SCREEN_WIDTH cfg")
    case False
    then show ?thesis by (subst replay_row.simps) (simp add: emits_Nil)
  next
    case True
    have W: "SCREEN_WIDTH cfg < 65536" using assms(1) by (simp add: cfg_ok_def)
    have suc: "unat (x + 1) = Suc (unat x)" using True W by (rule unat_u16_succ)
    let ?e = "WritePixel (unat x) (unat y) (shadow_pixel cfg (full_frame_buffer s) (unat x) (unat y))"
    have g: "get_full_frame_pixel cfg x y s =
               Some (shadow_pixel cfg (full_frame_buffer s) (unat x) (unat y))"
      using assms(1) less.prems True assms(3) by (rule get_full_frame_pixel_ok)
    have step: "replay_row cfg y x s = replay_row cfg y (x + 1) (emits [?e] s)"
      using True g by (subst replay_row.simps) (simp add: emit_emits)
    have "SCREEN_WIDTH cfg - unat (x + 1) < SCREEN_WIDTH cfg - unat x"
      using True suc by simp
    moreover have "state_ok cfg (emits [?e] s)" using less.prems by simp
    ultimately have "replay_row cfg y (x + 1) (emits [?e] s) =
        Some (emits (map (\<lambda>x. WritePixel x (unat y)
                            (shadow_pixel cfg (full_frame_buffer (emits [?e] s)) x (unat y)))
                       [unat (x + 1)..<SCREEN_WIDTH cfg]) (emits [?e] s))"
      by (rule less.hyps)
    then show ?thesis
      using step True by (simp add: suc emits_emits upt_conv_Cons)
  qed
qed

lemma replay_rows_ok:
  assumes "cfg_ok cfg" "state_ok cfg s"
  shows "replay_rows cfg y s =
           Some (emits (concat (map (\<lambda>y. map (\<lambda>x. WritePixel x y
                                 (shadow_pixel cfg (full_frame_buffer s) x y))
                                 [0..<SCREEN_WIDTH cfg])
                          [unat y..<SCREEN_HEIGHT cfg])) s)"
  using assms(2)
proof (induction "SCREEN_HEIGHT cfg - unat y" arbitrary: y s rule: less_induct)
  case less
  show ?case
  proof (cases "unat y < SCREEN_HEIGHT cfg")
    case False
    then show ?thesis by (subst replay_rows.simps) (simp add: emits_Nil)
  next
    case True
    have H: "SCREEN_HEIGHT cfg < 65536" using assms(1) by (simp add: cfg_ok_def)
    have suc: "unat (y + 1) = Suc (unat y)" using True H by (rule unat_u16_succ)
    let ?row = "map (\<lambda>x. WritePixel x (unat y) (shadow_pixel cfg (full_frame_buffer s) x (unat y)))
                  [0..<SCREEN_WIDTH cfg]"
    have r: "replay_row cfg y 0 s = Some (emits ?row s)"
      using replay_row_ok [OF assms(1) less.prems True, of 0] by simp
    have step: "replay_rows cfg y s = replay_rows cfg (y + 1) (emits ?row s)"
      using True r by (subst replay_rows.simps) simp
    have "SCREEN_HEIGHT cfg - unat (y + 1) < SCREEN_HEIGHT cfg - unat y"
      using True suc by simp
    moreover have "state_ok cfg (emits ?row s)" using less.prems by simp
    ultimately have "replay_rows cfg (y + 1) (emits ?row s) =
        Some (emits (concat (map (\<lambda>y. map (\<lambda>x. WritePixel x y
                                 (shadow_pixel cfg (full_frame_buffer (emits ?row s)) x y))
                                 [0..<SCREEN_WIDTH cfg])
                          [unat (y + 1)..<SCREEN_HEIGHT cfg])) (emits ?row s))"
      by (rule less.hyps)
    then show ?thesis
      using step True by (simp add: suc emits_emits upt_conv_Cons)
  qed
qed

lemma replay_rows_0:
  assumes "cfg_ok cfg" "state_ok cfg s"
  shows "replay_rows cfg 0 s = Some (emits (replay_events cfg (full_frame_buffer s)) s)"
  using replay_rows_ok [OF assms, of 0] by (simp add: replay_events_def)

lemma page_loop_emits:
  assumes "\<And>t. full_frame_buffer t = fb \<Longrightarrow> Q t \<Longrightarrow> body t = Some (emits ev t)"
    and "\<And>t evs. Q t \<Longrightarrow> Q (emits evs t)"
    and "full_frame_buffer s = fb" "Q s"
  shows "page_loop n body s = Some (emits (concat (replicate (Suc n) (ev @ [NextPage]))) s)"
  using assms(3,4)
proof (induction n arbitrary: s)
  case 0
  then show ?case using assms(1) by (simp add: emit_emits emits_emits)
next
  case (Suc n)
  have "body s = Some (emits ev s)" using Suc.prems by (rule assms(1))
  moreover have "page_loop n body (emits (ev @ [NextPage]) s) =
      Some (emits (concat (replicate (Suc n) (ev @ [NextPage]))) (emits (ev @ [NextPage]) s))"
    using Suc.prems assms(2) by (intro Suc.IH) simp_all
  ultimately show ?case by (simp add: emit_emits emits_emits)
qed

lemma perform_full_refresh_ok:
  assumes "cfg_ok cfg" "state_ok cfg s"
  shows "perform_full_refresh cfg s =
           Some (s\<lparr>partial_update_count := 0,
                   full_refresh_pending := False,
                   full_refresh_row_bitmap := replicate (length (full_refresh_row_bitmap s)) 0,
                   trace := trace s @ refresh_events cfg (full_frame_buffer s)\<rparr>)"
proof -
  let ?fb = "full_frame_buffer s"
  let ?pre = "[Println ''[E-INK] Executing scheduled full refresh'', Hibernate, Init,
               SetFullWindow, FirstPage]"
  have "page_loop (more_pages cfg) (replay_rows cfg 0) (emits ?pre s) =
          Some (emits (concat (replicate (Suc (more_pages cfg))
                  (replay_events cfg ?fb @ [NextPage]))) (emits ?pre s))"
  proof (rule page_loop_emits [where Q = "state_ok cfg" and fb = ?fb])
    fix t assume "full_frame_buffer t = ?fb" "state_ok cfg t"
    then show "replay_rows cfg 0 t = Some (emits (replay_events cfg ?fb) t)"
      using replay_rows_0 [OF assms(1), of t] by simp
  qed (use assms(2) in simp_all)
  then show ?thesis
    by (simp add: perform_full_refresh_def emit_emits emits_emits refresh_events_def emits_def)
qed

subsection \<open>The conversion loops\<close>

lemma for_range_invariant:
  assumes "P lo s" and "lo \<le> hi"
    and "\<And>i t. lo \<le> i \<Longrightarrow> i < hi \<Longrightarrow> P i t \<Longrightarrow> \<exists>t'. body i t = Some t' \<and> P (Suc i) t'"
  shows "\<exists>t. for_range [lo..<hi] body s = Some t \<and> P hi t"
  using assms
proof (induction "hi - lo" arbitrary: lo s)
  case 0
  then show ?case by simp
next
  case (Suc d)
  then have lt: "lo < hi" by simp
  from Suc.prems(3) [OF le_refl lt Suc.prems(1)]
  obtain t' where t': "body lo s = Some t'" "P (Suc lo) t'" by blast
  have "\<exists>t. for_range [Suc lo..<hi] body t' = Some t \<and> P hi t"
  proof (rule Suc.hyps(1))
    show "d = hi - Suc lo" using Suc.hyps(2) by simp
    show "P (Suc lo) t'" by (rule t')
    show "Suc lo \<le> hi" using lt by simp
    show "\<exists>t'. body i t = Some t' \<and> P (Suc i) t'" if "Suc lo \<le> i" "i < hi" "P i t" for i t
      using that by (intro Suc.prems(3)) simp_all
  qed
  then show ?case using t' lt by (simp add: upt_conv_Cons)
qed

lemma for_range_preserve:
  assumes "for_range xs body s = Some t" and "P s"
    and "\<And>i u v. i \<in> set xs \<Longrightarrow> P u \<Longrightarrow> body i u = Some v \<Longrightarrow> P v"
  shows "P t"
  using assms
proof (induction xs arbitrary: s)
  case Nil
  then show ?case by simp
next
  case (Cons i xs)
  from Cons.prems(1) obtain u where u: "body i s = Some u" "for_range xs body u = Some t"
    by (auto split: option.splits)
  have "P u" using Cons.prems(3) [of i s u] Cons.prems(2) u by simp
  with u(2) show ?case
  proof (rule Cons.IH)
    show "P v" if "j \<in> set xs" "P w" "body j w = Some v" for j w v
      using that Cons.prems(3) [of j w v] by simp
  qed
qed

lemma for_range_cong:
  assumes "\<And>i u. i \<in> set xs \<Longrightarrow> f i u = g i u"
  shows "for_range xs f s = for_range xs g s"
  using assms by (induction xs arbitrary: s) (auto split: option.splits)

lemma fb_bit_update:
  assumes "p div 8 < length fb"
  shows "fb_bit (fb[p div 8 := (if c then fb ! (p div 8) OR drop_bit (p mod 8) 0x80
                                else fb ! (p div 8) AND NOT (drop_bit (p mod 8) 0x80))]) q =
           (if q = p then c else fb_bit fb q)"
proof (cases "q div 8 = p div 8")
  case True
  have m: "drop_bit (p mod 8) (0x80 :: u8) = 2 ^ (7 - p mod 8)"
    by (rule msb_mask_conv) simp
  have eq: "q = p \<longleftrightarrow> q mod 8 = p mod 8"
    using True by (metis div_mult_mod_eq)
  have "7 - q mod 8 = 7 - p mod 8 \<longleftrightarrow> q mod 8 = p mod 8"
  proof -
    have "q mod 8 < 8" "p mod 8 < 8" by simp_all
    then show ?thesis by arith
  qed
  moreover have "7 - q mod 8 < 8" by simp
  ultimately show ?thesis
    using True assms eq
    by (auto simp add: fb_bit_def m bit_or_iff bit_and_iff bit_not_iff bit_exp_iff possible_bit_word)
next
  case False
  then have "q \<noteq> p" by auto
  then show ?thesis using False by (simp add: fb_bit_def)
qed

lemma shadow_pixel_fb_bit: "shadow_pixel cfg fb x y = fb_bit fb (y * SCREEN_WIDTH cfg + x)"
  by (simp add: shadow_pixel_def fb_bit_def)

lemma pixel_index_inj:
  "x < W \<Longrightarrow> x' < W \<Longrightarrow> (y' * W + x' = y * W + (x :: nat)) \<longleftrightarrow> (x' = x \<and> y' = y)"
proof
  assume x: "x < W" and x': "x' < W" and e: "y' * W + x' = y * W + x"
  have "(y' * W + x') div W = y'" "(y * W + x) div W = y" using x x' by simp_all
  then have "y' = y" using e by simp
  then show "x' = x \<and> y' = y" using e by simp
qed simp


lemma painted_start: "painted cfg X0 Y0 (\<lambda>a b. False) col s s"
  unfolding painted_def by (rule exI [of _ "full_frame_buffer s"]) simp

lemma painted_cong:
  assumes "painted cfg X0 Y0 D col s t" and "\<And>a b. D a b = D' a b"
  shows "painted cfg X0 Y0 D' col s t"
  using assms unfolding painted_def by simp

lemma u16_of_sum:
  assumes "a + b < 65536"
  shows "unat (word_of_int (int a + int b) :: u16) = a + b"
proof -
  have "(word_of_int (int a + int b) :: u16) = of_nat (a + b)" by simp
  then show ?thesis using assms by (simp only: unat_of_nat) simp
qed

lemma set_full_frame_pixel_painted:
  assumes cfg: "cfg_ok cfg" and ok: "state_ok cfg s"
    and p: "painted cfg X0 Y0 D col s t"
    and X: "X0 + x < SCREEN_WIDTH cfg" and Y: "Y0 + y < SCREEN_HEIGHT cfg"
  shows "\<exists>t'. set_full_frame_pixel cfg (word_of_int (int X0 + int x)) (word_of_int (int Y0 + int y))
                 (col x y) t = Some t'
              \<and> painted cfg X0 Y0 (\<lambda>a b. D a b \<or> (a = x \<and> b = y)) col s t'"
proof -
  let ?W = "SCREEN_WIDTH cfg" and ?H = "SCREEN_HEIGHT cfg"
  from p obtain fb' where t: "t = s\<lparr>full_frame_buffer := fb'\<rparr>"
    and len: "length fb' = length (full_frame_buffer s)"
    and px: "\<And>X Y. X < ?W \<Longrightarrow> Y < ?H \<Longrightarrow>
              shadow_pixel cfg fb' X Y =
                (if X0 \<le> X \<and> Y0 \<le> Y \<and> D (X - X0) (Y - Y0) then col (X - X0) (Y - Y0)
                 else shadow_pixel cfg (full_frame_buffer s) X Y)"
    unfolding painted_def by blast
  have W: "?W < 65536" and H: "?H < 65536" using cfg by (simp_all add: cfg_ok_def)
  have ux: "unat (word_of_int (int X0 + int x) :: u16) = X0 + x"
    using X W by (intro u16_of_sum) simp
  have uy: "unat (word_of_int (int Y0 + int y) :: u16) = Y0 + y"
    using Y H by (intro u16_of_sum) simp
  let ?p = "(Y0 + y) * ?W + (X0 + x)"
  have m: "?p mod 2 ^ 32 = ?p" using W H X Y by (rule pixel_index_u32)
  have "?p < ?W * ?H" using X Y by (rule pixel_index_bound)
  then have k: "?p div 8 < length fb'"
    using ok len unfolding state_ok_def by arith
  define fb'' where "fb'' = fb'[?p div 8 := (if col x y then fb' ! (?p div 8) OR drop_bit (?p mod 8) 0x80
                                else fb' ! (?p div 8) AND NOT (drop_bit (?p mod 8) 0x80))]"
  have r: "set_full_frame_pixel cfg (word_of_int (int X0 + int x)) (word_of_int (int Y0 + int y))
             (col x y) t = Some (s\<lparr>full_frame_buffer := fb''\<rparr>)"
    unfolding set_full_frame_pixel_def Let_def ux uy m using k
    by (simp add: t fb''_def)
  have nb: "shadow_pixel cfg fb'' X' Y' =
      (if X' = X0 + x \<and> Y' = Y0 + y then col x y else shadow_pixel cfg fb' X' Y')"
    if "X' < ?W" "Y' < ?H" for X' Y'
  proof -
    have "(Y' * ?W + X' = ?p) \<longleftrightarrow> (X' = X0 + x \<and> Y' = Y0 + y)"
      using X that(1) by (rule pixel_index_inj)
    then show ?thesis
      unfolding shadow_pixel_fb_bit fb''_def fb_bit_update [OF k] by simp
  qed
  have "painted cfg X0 Y0 (\<lambda>a b. D a b \<or> (a = x \<and> b = y)) col s (s\<lparr>full_frame_buffer := fb''\<rparr>)"
    unfolding painted_def
  proof (intro exI [of _ fb''] conjI allI impI)
    show "length fb'' = length (full_frame_buffer s)" using len by (simp add: fb''_def)
    fix X' Y' assume b: "X' < ?W" "Y' < ?H"
    show "shadow_pixel cfg fb'' X' Y' =
        (if X0 \<le> X' \<and> Y0 \<le> Y' \<and> (D (X' - X0) (Y' - Y0) \<or> X' - X0 = x \<and> Y' - Y0 = y)
         then col (X' - X0) (Y' - Y0) else shadow_pixel cfg (full_frame_buffer s) X' Y')"
      unfolding nb [OF b] px [OF b] by auto
  qed simp
  with r show ?thesis by blast
qed


lemma pixel_test_iff: "(drop_bit n (src :: u8) AND 1 = 0) \<longleftrightarrow> \<not> bit src n"
  by (simp add: and_one_eq bit_iff_odd_drop_bit even_iff_mod_2_eq_zero)

lemma convert_bit_step:
  assumes cfg: "cfg_ok cfg" and ok: "state_ok cfg s0"
    and area: "x1 area = int X0" "y1 area = int Y0"
    and fit: "X0 + w \<le> SCREEN_WIDTH cfg" "Y0 + h \<le> SCREEN_HEIGHT cfg"
    and str: "w \<le> 8 * stride" "stride * h < 2 ^ 32"
    and src: "src_ok px_map stride w h"
    and y: "y < h" and k: "k < 8"
    and inv: "painted cfg X0 Y0 (progress w y bx k) (source_black px_map stride) s0 t"
      "byte_bits px_map stride w y bx k e"
  shows "\<exists>e' t'. convert_bit cfg area px_map w stride y bx k (e, t) = Some (e', t')
           \<and> painted cfg X0 Y0 (progress w y bx (Suc k)) (source_black px_map stride) s0 t'
           \<and> byte_bits px_map stride w y bx (Suc k) e'"
proof (cases "bx * 8 + k < w")
  case False
  have "painted cfg X0 Y0 (progress w y bx (Suc k)) (source_black px_map stride) s0 t"
    using inv(1) by (rule painted_cong) (use False in \<open>auto simp add: progress_def\<close>)
  moreover have "byte_bits px_map stride w y bx (Suc k) e"
    using inv(2) False unfolding byte_bits_def by (auto simp add: less_Suc_eq)
  ultimately show ?thesis using False by simp
next
  case True
  let ?x = "bx * 8 + k"
  let ?c = "source_black px_map stride ?x y"
  have xd: "?x div 8 = bx" and xm: "?x mod 8 = k" using k by simp_all
  have "bx < stride" using True str(1) by arith
  then have "y * stride + bx < stride * h" using y by (rule pixel_index_bound)
  then have idx: "(y * stride + bx) mod 2 ^ 32 = y * stride + bx" using str(2) by simp
  from src True y obtain b where "px_map (8 + y * stride + ?x div 8) = Some b"
    unfolding src_ok_def by blast
  then have b: "px_map (8 + (y * stride + bx)) = Some b"
    by (simp only: xd add.assoc)
  have c: "?c = (\<not> bit b (7 - k))"
    using b k by (simp add: source_black_def add.assoc)
  have "X0 + ?x < SCREEN_WIDTH cfg" "Y0 + y < SCREEN_HEIGHT cfg"
    using True y fit by simp_all
  with cfg ok inv(1) obtain t' where
    t': "set_full_frame_pixel cfg (word_of_int (int X0 + int ?x)) (word_of_int (int Y0 + int y)) ?c t
           = Some t'"
    and p: "painted cfg X0 Y0 (\<lambda>a b. progress w y bx k a b \<or> (a = ?x \<and> b = y))
              (source_black px_map stride) s0 t'"
    using set_full_frame_pixel_painted by blast
  define e' where "e' = (if ?c then e OR drop_bit k 0x80 else e)"
  have r: "convert_bit cfg area px_map w stride y bx k (e, t) = Some (e', t')"
    unfolding convert_bit.simps Let_def
    by (simp only: True if_True xd xm idx b option.case pixel_test_iff area flip: c)
       (simp only: t' option.map e'_def)
  have "painted cfg X0 Y0 (progress w y bx (Suc k)) (source_black px_map stride) s0 t'"
    using p by (rule painted_cong) (use True in \<open>auto simp add: progress_def\<close>)
  moreover have "byte_bits px_map stride w y bx (Suc k) e'"
    unfolding byte_bits_def
  proof (intro allI impI)
    fix j :: nat assume j: "j < 8"
    have old: "bit e (7 - j) = (j < k \<and> bx * 8 + j < w \<and> source_black px_map stride (bx * 8 + j) y)"
      using inv(2) j unfolding byte_bits_def by blast
    have "7 - j = 7 - k \<longleftrightarrow> j = k" using j k by arith
    then have new: "bit (drop_bit k (0x80 :: u8)) (7 - j) \<longleftrightarrow> j = k"
      using k j by (auto simp add: msb_mask_conv bit_exp_iff possible_bit_word)
    show "bit e' (7 - j) = (j < Suc k \<and> bx * 8 + j < w \<and> source_black px_map stride (bx * 8 + j) y)"
      using old new True by (auto simp add: e'_def bit_or_iff less_Suc_eq)
  qed
  ultimately show ?thesis using r by blast
qed


lemma convert_bit_loop:
  assumes cfg: "cfg_ok cfg" and ok: "state_ok cfg s0"
    and area: "x1 area = int X0" "y1 area = int Y0"
    and fit: "X0 + w \<le> SCREEN_WIDTH cfg" "Y0 + h \<le> SCREEN_HEIGHT cfg"
    and str: "w \<le> 8 * stride" "stride * h < 2 ^ 32"
    and src: "src_ok px_map stride w h"
    and y: "y < h"
    and inv: "painted cfg X0 Y0 (progress w y bx 0) (source_black px_map stride) s0 t"
  shows "\<exists>e' t'. for_range [0..<8] (convert_bit cfg area px_map w stride y bx) (0, t) = Some (e', t')
           \<and> painted cfg X0 Y0 (progress w y (Suc bx) 0) (source_black px_map stride) s0 t'
           \<and> byte_bits px_map stride w y bx 8 e'"
proof -
  let ?P = "\<lambda>k et. painted cfg X0 Y0 (progress w y bx k) (source_black px_map stride) s0 (snd et)
                    \<and> byte_bits px_map stride w y bx k (fst et)"
  have "\<exists>et. for_range [0..<8] (convert_bit cfg area px_map w stride y bx) (0, t) = Some et \<and> ?P 8 et"
  proof (rule for_range_invariant [where P = ?P])
    show "?P 0 (0, t)" using inv by (simp add: byte_bits_def)
    show "(0::nat) \<le> 8" by simp
    fix k et assume k: "k < 8" and P: "?P k et"
    obtain e u where et: "et = (e, u)" by (cases et)
    from convert_bit_step [OF cfg ok area fit str src y k, of bx u e] P
    obtain e' u' where "convert_bit cfg area px_map w stride y bx k (e, u) = Some (e', u')"
      "painted cfg X0 Y0 (progress w y bx (Suc k)) (source_black px_map stride) s0 u'"
      "byte_bits px_map stride w y bx (Suc k) e'"
      unfolding et by auto
    then show "\<exists>et'. convert_bit cfg area px_map w stride y bx k et = Some et' \<and> ?P (Suc k) et'"
      unfolding et by auto
  qed
  then obtain e' t' where r: "for_range [0..<8] (convert_bit cfg area px_map w stride y bx) (0, t) = Some (e', t')"
    and p: "painted cfg X0 Y0 (progress w y bx 8) (source_black px_map stride) s0 t'"
    and b: "byte_bits px_map stride w y bx 8 e'"
    by auto
  have "painted cfg X0 Y0 (progress w y (Suc bx) 0) (source_black px_map stride) s0 t'"
    using p by (rule painted_cong) (auto simp add: progress_def)
  with r b show ?thesis by blast
qed

lemma convert_byte_step:
  assumes cfg: "cfg_ok cfg" and ok: "state_ok cfg s0"
    and area: "x1 area = int X0" "y1 area = int Y0"
    and fit: "X0 + w \<le> SCREEN_WIDTH cfg" "Y0 + h \<le> SCREEN_HEIGHT cfg"
    and str: "w \<le> 8 * stride" "stride * h < 2 ^ 32"
    and src: "src_ok px_map stride w h"
    and y: "y < h" and bx: "bx < stride"
    and inv: "painted cfg X0 Y0 (progress w y bx 0) (source_black px_map stride) s0 t"
      "length buf = stride * h" "conv_good px_map stride w buf (y * stride + bx)"
  shows "\<exists>buf' t'. convert_byte cfg area px_map w stride stride y bx (buf, t) = Some (buf', t')
           \<and> painted cfg X0 Y0 (progress w y (Suc bx) 0) (source_black px_map stride) s0 t'
           \<and> length buf' = stride * h
           \<and> conv_good px_map stride w buf' (y * stride + Suc bx)"
proof -
  from convert_bit_loop [OF cfg ok area fit str src y inv(1)]
  obtain e' t' where r: "for_range [0..<8] (convert_bit cfg area px_map w stride y bx) (0, t) = Some (e', t')"
    and p: "painted cfg X0 Y0 (progress w y (Suc bx) 0) (source_black px_map stride) s0 t'"
    and b: "byte_bits px_map stride w y bx 8 e'"
    by blast
  let ?i = "y * stride + bx"
  have lt: "?i < stride * h" using bx y by (rule pixel_index_bound)
  then have idx: "?i mod 2 ^ 32 = ?i" using str(2) by simp
  have c: "convert_byte cfg area px_map w stride stride y bx (buf, t) = Some (buf[?i := e'], t')"
    unfolding convert_byte.simps Let_def
    by (simp only: r option.case prod.case idx) (simp add: lt inv(2))
  have dm: "?i div stride = y" "?i mod stride = bx" using bx by simp_all
  have "conv_good px_map stride w (buf[?i := e']) (y * stride + Suc bx)"
    unfolding conv_good_def
  proof (intro allI impI)
    fix i assume i: "i < y * stride + Suc bx"
    show "byte_bits px_map stride w (i div stride) (i mod stride) 8 (buf[?i := e'] ! i)"
    proof (cases "i = ?i")
      case True
      then show ?thesis using b lt inv(2) bx by simp
    next
      case False
      then have "i < ?i" using i by simp
      then show ?thesis using inv(3) False unfolding conv_good_def by simp
    qed
  qed
  with c p inv(2) show ?thesis by simp
qed

lemma convert_row_loop:
  assumes cfg: "cfg_ok cfg" and ok: "state_ok cfg s0"
    and area: "x1 area = int X0" "y1 area = int Y0"
    and fit: "X0 + w \<le> SCREEN_WIDTH cfg" "Y0 + h \<le> SCREEN_HEIGHT cfg"
    and str: "w \<le> 8 * stride" "stride * h < 2 ^ 32"
    and src: "src_ok px_map stride w h"
    and y: "y < h"
    and inv: "painted cfg X0 Y0 (progress w y 0 0) (source_black px_map stride) s0 t"
      "length buf = stride * h" "conv_good px_map stride w buf (y * stride)"
  shows "\<exists>buf' t'. for_range [0..<stride] (convert_byte cfg area px_map w stride stride y) (buf, t)
              = Some (buf', t')
           \<and> painted cfg X0 Y0 (progress w (Suc y) 0 0) (source_black px_map stride) s0 t'
           \<and> length buf' = stride * h
           \<and> conv_good px_map stride w buf' (Suc y * stride)"
proof -
  let ?P = "\<lambda>bx bt. painted cfg X0 Y0 (progress w y bx 0) (source_black px_map stride) s0 (snd bt)
                    \<and> length (fst bt) = stride * h
                    \<and> conv_good px_map stride w (fst bt) (y * stride + bx)"
  have "\<exists>bt. for_range [0..<stride] (convert_byte cfg area px_map w stride stride y) (buf, t) = Some bt
           \<and> ?P stride bt"
  proof (rule for_range_invariant [where P = ?P])
    show "?P 0 (buf, t)" using inv by simp
    show "0 \<le> stride" by simp
    fix bx bt assume bx: "bx < stride" and P: "?P bx bt"
    obtain b u where bt: "bt = (b, u)" by (cases bt)
    from convert_byte_step [OF cfg ok area fit str src y bx, of u b] P
    show "\<exists>bt'. convert_byte cfg area px_map w stride stride y bx bt = Some bt' \<and> ?P (Suc bx) bt'"
      unfolding bt by auto
  qed
  then obtain buf' t' where
    r: "for_range [0..<stride] (convert_byte cfg area px_map w stride stride y) (buf, t) = Some (buf', t')"
    and p: "painted cfg X0 Y0 (progress w y stride 0) (source_black px_map stride) s0 t'"
    and l: "length buf' = stride * h"
    and g: "conv_good px_map stride w buf' (y * stride + stride)"
    by auto
  have "painted cfg X0 Y0 (progress w (Suc y) 0 0) (source_black px_map stride) s0 t'"
    using p by (rule painted_cong) (use str(1) in \<open>auto simp add: progress_def\<close>)
  with r l g show ?thesis by (simp add: add.commute)
qed

lemma convert_rows_ok:
  assumes cfg: "cfg_ok cfg" and ok: "state_ok cfg s"
    and area: "x1 area = int X0" "y1 area = int Y0"
    and fit: "X0 + w \<le> SCREEN_WIDTH cfg" "Y0 + h \<le> SCREEN_HEIGHT cfg"
    and str: "w \<le> 8 * stride" "stride * h < 2 ^ 32"
    and src: "src_ok px_map stride w h"
    and len: "length buf = stride * h"
  shows "\<exists>buf' t'. convert_rows cfg area px_map w h stride stride (buf, s) = Some (buf', t')
           \<and> painted cfg X0 Y0 (\<lambda>a b. a < w \<and> b < h) (source_black px_map stride) s t'
           \<and> length buf' = stride * h
           \<and> conv_good px_map stride w buf' (stride * h)"
proof -
  let ?P = "\<lambda>y bt. painted cfg X0 Y0 (progress w y 0 0) (source_black px_map stride) s (snd bt)
                    \<and> length (fst bt) = stride * h
                    \<and> conv_good px_map stride w (fst bt) (y * stride)"
  have "\<exists>bt. for_range [0..<h] (\<lambda>y. for_range [0..<stride]
                 (convert_byte cfg area px_map w stride stride y)) (buf, s) = Some bt
           \<and> ?P h bt"
  proof (rule for_range_invariant [where P = ?P])
    have "painted cfg X0 Y0 (progress w 0 0 0) (source_black px_map stride) s s"
      using painted_start by (rule painted_cong) (simp add: progress_def)
    then show "?P 0 (buf, s)" using len by (simp add: conv_good_def)
    show "0 \<le> h" by simp
    fix y bt assume y: "y < h" and P: "?P y bt"
    obtain b u where bt: "bt = (b, u)" by (cases bt)
    from convert_row_loop [OF cfg ok area fit str src y, of u b] P
    show "\<exists>bt'. for_range [0..<stride] (convert_byte cfg area px_map w stride stride y) bt = Some bt'
             \<and> ?P (Suc y) bt'"
      unfolding bt by auto
  qed
  then obtain buf' t' where
    r: "convert_rows cfg area px_map w h stride stride (buf, s) = Some (buf', t')"
    and p: "painted cfg X0 Y0 (progress w h 0 0) (source_black px_map stride) s t'"
    and l: "length buf' = stride * h"
    and g: "conv_good px_map stride w buf' (h * stride)"
    unfolding convert_rows_def by auto
  have "painted cfg X0 Y0 (\<lambda>a b. a < w \<and> b < h) (source_black px_map stride) s t'"
    using p by (rule painted_cong) (auto simp add: progress_def)
  with r l g show ?thesis by (simp add: mult.commute)
qed


lemma for_range_emits:
  assumes "\<And>i t. i \<in> set xs \<Longrightarrow> body i t = Some (emits (f i) t)"
  shows "for_range xs body s = Some (emits (concat (map f xs)) s)"
  using assms
proof (induction xs arbitrary: s)
  case Nil
  then show ?case by (simp add: emits_Nil)
next
  case (Cons i xs)
  then show ?case by (simp add: emits_emits)
qed

lemma draw_bit_emits:
  "draw_bit area w y byte_x b k s =
     Some (emits (if byte_x * 8 + k < w
                  then [WritePixel (u32 (x1 area + int (byte_x * 8 + k))) (u32 (y1 area + int y))
                          (b AND drop_bit k 0x80 \<noteq> 0)]
                  else []) s)"
  by (simp add: draw_bit_def Let_def emit_emits emits_Nil)

lemma draw_byte_emits:
  assumes "y < h" "byte_x < stride" "stride * h < 2 ^ 32" "stride * h \<le> length buf"
  shows "draw_byte area w stride buf y byte_x s =
     Some (emits (concat (map (\<lambda>k.
         if byte_x * 8 + k < w
         then [WritePixel (u32 (x1 area + int (byte_x * 8 + k))) (u32 (y1 area + int y))
                 (buf ! (y * stride + byte_x) AND drop_bit k 0x80 \<noteq> 0)]
         else []) [0..<8])) s)"
proof -
  have lt: "y * stride + byte_x < stride * h" using assms(2,1) by (rule pixel_index_bound)
  then have idx: "(y * stride + byte_x) mod 2 ^ 32 = y * stride + byte_x" using assms(3) by simp
  have "y * stride + byte_x < length buf" using lt assms(4) by simp
  then show ?thesis
    unfolding draw_byte_def Let_def idx
    by (simp only: if_True) (rule for_range_emits, rule draw_bit_emits)
qed

lemma draw_rows_emits:
  assumes "stride * h < 2 ^ 32" "stride * h \<le> length buf"
  shows "draw_rows area w h stride buf s = Some (emits (draw_events area w h stride buf) s)"
  unfolding draw_rows_def draw_events_def
proof (rule for_range_emits)
  fix y t assume "y \<in> set [0..<h]"
  then have y: "y < h" by simp
  show "for_range [0..<stride] (draw_byte area w stride buf y) t =
          Some (emits (concat (map (\<lambda>byte_x. concat (map (\<lambda>k.
             if byte_x * 8 + k < w
             then [WritePixel (u32 (x1 area + int (byte_x * 8 + k))) (u32 (y1 area + int y))
                     (buf ! (y * stride + byte_x) AND drop_bit k 0x80 \<noteq> 0)]
             else []) [0..<8])) [0..<stride])) t)"
  proof (rule for_range_emits)
    fix byte_x u assume "byte_x \<in> set [0..<stride]"
    then have "byte_x < stride" by simp
    with y show "draw_byte area w stride buf y byte_x u =
        Some (emits (concat (map (\<lambda>k.
           if byte_x * 8 + k < w
           then [WritePixel (u32 (x1 area + int (byte_x * 8 + k))) (u32 (y1 area + int y))
                   (buf ! (y * stride + byte_x) AND drop_bit k 0x80 \<noteq> 0)]
           else []) [0..<8])) u)"
      using assms by (rule draw_byte_emits)
  qed
qed


lemma region_rel_refl: "region_rel s s"
  by (simp add: region_rel_def)

lemma region_rel_trans:
  assumes "region_rel s t" "region_rel t u"
  shows "region_rel s u"
proof -
  from assms(1) obtain a where a: "trace t = trace s @ a" "list_all draw_event a"
    unfolding region_rel_def by blast
  from assms(2) obtain b where b: "trace u = trace t @ b" "list_all draw_event b"
    unfolding region_rel_def by blast
  have "trace u = trace s @ (a @ b)" "list_all draw_event (a @ b)"
    using a b by simp_all
  then have "\<exists>evs. trace u = trace s @ evs \<and> list_all draw_event evs" by blast
  then show ?thesis using assms unfolding region_rel_def by simp
qed

lemma region_rel_emits: "list_all draw_event evs \<Longrightarrow> region_rel s (emits evs s)"
  unfolding region_rel_def by simp

lemma region_rel_emits_trans:
  "region_rel s t \<Longrightarrow> list_all draw_event evs \<Longrightarrow> region_rel s (emits evs t)"
  by (erule region_rel_trans) (rule region_rel_emits)

lemma set_full_frame_pixel_rel:
  "set_full_frame_pixel cfg x y c t = Some t' \<Longrightarrow> region_rel t t'"
  by (auto simp add: set_full_frame_pixel_def Let_def region_rel_def split: if_splits)

lemma convert_bit_rel:
  "convert_bit cfg area px_map w stride y bx k (e, t) = Some (e', t') \<Longrightarrow> region_rel t t'"
  by (auto simp add: Let_def region_rel_refl split: if_splits option.splits
        dest: set_full_frame_pixel_rel)

lemma convert_byte_rel:
  assumes "convert_byte cfg area px_map w estride lstride y bx (buf, t) = Some (buf', t')"
  shows "region_rel t t'"
proof -
  from assms obtain e where
    r: "for_range [0..<8] (convert_bit cfg area px_map w lstride y bx) (0, t) = Some (e, t')"
    by (auto simp add: Let_def split: option.splits if_splits)
  have "region_rel t (snd (e, t'))"
    using r
  proof (rule for_range_preserve [where P = "\<lambda>et. region_rel t (snd et)"])
    show "region_rel t (snd (0 :: u8, t))" by (simp add: region_rel_refl)
    fix k u v
    assume a: "region_rel t (snd u)" and c: "convert_bit cfg area px_map w lstride y bx k u = Some v"
    obtain e1 t1 where u: "u = (e1, t1)" by (cases u)
    obtain e2 t2 where v: "v = (e2, t2)" by (cases v)
    from c have "region_rel t1 t2" unfolding u v by (rule convert_bit_rel)
    with a show "region_rel t (snd v)"
      unfolding u v by (simp only: snd_conv) (rule region_rel_trans)
  qed
  then show ?thesis by simp
qed

lemma convert_rows_rel:
  assumes "convert_rows cfg area px_map w h estride lstride (buf, t) = Some (buf', t')"
  shows "region_rel t t'"
proof -
  have "region_rel t (snd (buf', t'))"
    using assms unfolding convert_rows_def
  proof (rule for_range_preserve [where P = "\<lambda>bt. region_rel t (snd bt)"])
    show "region_rel t (snd (buf, t))" by (simp add: region_rel_refl)
    fix y u v
    assume u: "region_rel t (snd u)"
      and r: "for_range [0..<estride] (convert_byte cfg area px_map w estride lstride y) u = Some v"
    show "region_rel t (snd v)"
      using r u
    proof (rule for_range_preserve [where P = "\<lambda>bt. region_rel t (snd bt)"])
      fix bx p q
      assume a: "region_rel t (snd p)"
        and c: "convert_byte cfg area px_map w estride lstride y bx p = Some q"
      obtain b1 t1 where p: "p = (b1, t1)" by (cases p)
      obtain b2 t2 where q: "q = (b2, t2)" by (cases q)
      from c have "region_rel t1 t2" unfolding p q by (rule convert_byte_rel)
      with a show "region_rel t (snd q)"
        unfolding p q by (simp only: snd_conv) (rule region_rel_trans)
    qed
  qed
  then show ?thesis by simp
qed

lemma draw_rows_rel:
  assumes "draw_rows area w h stride buf s = Some t"
  shows "region_rel s t"
  using assms unfolding draw_rows_def
proof (rule for_range_preserve [where P = "region_rel s"])
  show "region_rel s s" by (rule region_rel_refl)
  fix y u v
  assume u: "region_rel s u"
    and r: "for_range [0..<stride] (draw_byte area w stride buf y) u = Some v"
  show "region_rel s v"
    using r u
  proof (rule for_range_preserve [where P = "region_rel s"])
    fix bx p q
    assume p: "region_rel s p" and d: "draw_byte area w stride buf y bx p = Some q"
    from d have "for_range [0..<8]
        (draw_bit area w y bx (buf ! ((y * stride + bx) mod 2 ^ 32))) p = Some q"
      by (simp add: draw_byte_def Let_def split: if_splits)
    then show "region_rel s q"
      using p
    proof (rule for_range_preserve [where P = "region_rel s"])
      fix k a b
      assume "region_rel s a"
        "draw_bit area w y bx (buf ! ((y * stride + bx) mod 2 ^ 32)) k a = Some b"
      then show "region_rel s b"
        by (auto simp add: draw_bit_emits intro!: region_rel_emits_trans)
    qed
  qed
qed

lemma page_loop_rel:
  assumes "page_loop n body s = Some t" and "\<And>u v. body u = Some v \<Longrightarrow> region_rel u v"
  shows "region_rel s t"
  using assms(1)
proof (induction n arbitrary: s)
  case 0
  then obtain v where "body s = Some v" "t = emits [NextPage] v"
    by (auto simp add: emit_emits)
  then show ?case
    using assms(2) [of s v] by (auto intro!: region_rel_emits_trans)
next
  case (Suc n)
  then obtain v where v: "body s = Some v" "page_loop n body (emits [NextPage] v) = Some t"
    by (auto simp add: emit_emits split: option.splits)
  have "region_rel s (emits [NextPage] v)"
    using assms(2) [OF v(1)] by (auto intro!: region_rel_emits_trans)
  moreover have "region_rel (emits [NextPage] v) t" using v(2) by (rule Suc.IH)
  ultimately show ?case by (rule region_rel_trans)
qed


lemma my_disp_flush_split:
  "my_disp_flush cfg area px_map malloc_result s =
     (case update_region cfg area px_map malloc_result (flush_start area s) of
        None \<Rightarrow> None
      | Some t \<Rightarrow>
          (case check_coverage cfg area t of
             None \<Rightarrow> None
           | Some u \<Rightarrow> Some (emit FlushReady u)))"
  unfolding my_disp_flush_def update_region_def check_coverage_def flush_start_def
    area_width_def area_height_def area_stride_def Let_def
  by (auto simp add: emit_def split: option.splits Option.bind_splits)


lemma page_loop_empty: "page_loop n Some s = Some (emits (replicate (Suc n) NextPage) s)"
proof -
  have "page_loop n Some s = Some (emits (concat (replicate (Suc n) ([] @ [NextPage]))) s)"
    by (rule page_loop_emits [where Q = "\<lambda>t. True" and fb = "full_frame_buffer s"])
       (simp_all add: emits_Nil)
  moreover have "concat (replicate m [NextPage]) = replicate m NextPage" for m
    by (induction m) simp_all
  ultimately show ?thesis by simp
qed

lemma update_region_fail:
  "update_region cfg area px_map None s =
     Some (emits ([Println ''[ERROR] Failed to allocate EPD buffer!'', FirstPage]
                  @ replicate (Suc (more_pages cfg)) NextPage) s)"
  by (simp add: update_region_def page_loop_empty emit_emits emits_emits)

lemma update_region_rel:
  assumes "update_region cfg area px_map malloc_result s = Some t"
  shows "region_rel s t"
proof (cases malloc_result)
  case None
  then show ?thesis
    using assms unfolding update_region_fail [of cfg area px_map s, symmetric] None
    by (auto simp add: update_region_fail list_all_iff intro!: region_rel_emits)
next
  case (Some junk)
  from assms obtain buf u where
    c: "convert_rows cfg area px_map (area_width area) (area_height area)
          (area_stride area) (area_stride area)
          (map junk [0..<(area_stride area * area_height area) mod 2 ^ 32], s) = Some (buf, u)"
    and p: "page_loop (more_pages cfg)
          (draw_rows area (area_width area) (area_height area) (area_stride area) buf)
          (emit FirstPage u) = Some t"
    unfolding update_region_def Some by (auto split: option.splits)
  have "region_rel s u" using c by (rule convert_rows_rel)
  then have "region_rel s (emit FirstPage u)"
    unfolding emit_emits by (rule region_rel_emits_trans) simp
  moreover have "region_rel (emit FirstPage u) t"
    using p by (rule page_loop_rel) (rule draw_rows_rel)
  ultimately show ?thesis by (rule region_rel_trans)
qed

lemma check_coverage_idle: "\<not> full_refresh_pending s \<Longrightarrow> check_coverage cfg area s = Some s"
  by (simp add: check_coverage_def)

lemma check_coverage_armed:
  assumes cfg: "cfg_ok cfg" and ok: "state_ok cfg s" and pend: "full_refresh_pending s"
  shows "\<exists>bm'. mark_rows_covered cfg (word_of_int (y1 area)) (word_of_int (y2 area)) s
              = Some (s\<lparr>full_refresh_row_bitmap := bm'\<rparr>)
           \<and> length bm' = length (full_refresh_row_bitmap s)
           \<and> (\<forall>i. row_covered bm' i =
                  (row_covered (full_refresh_row_bitmap s) i
                   \<or> (unat (word_of_int (y1 area) :: u16) \<le> i
                       \<and> i \<le> unat (word_of_int (y2 area) :: u16) \<and> i < SCREEN_HEIGHT cfg)))
           \<and> check_coverage cfg area s =
               Some (if \<forall>row<SCREEN_HEIGHT cfg. row_covered bm' row
                     then s\<lparr>partial_update_count := 0,
                            full_refresh_pending := False,
                            full_refresh_row_bitmap := replicate (length (full_refresh_row_bitmap s)) 0,
                            trace := trace s @ refresh_events cfg (full_frame_buffer s)\<rparr>
                     else s\<lparr>full_refresh_row_bitmap := bm'\<rparr>)"
proof -
  have H: "SCREEN_HEIGHT cfg < 65536" using cfg by (simp add: cfg_ok_def)
  have len: "(SCREEN_HEIGHT cfg + 7) div 8 \<le> length (full_refresh_row_bitmap s)"
    using ok by (simp add: state_ok_def)
  from mark_rows_loop_bitmap [OF H len, of "word_of_int (y1 area)" "word_of_int (y2 area)"]
  obtain bm' where
    m: "mark_rows_covered cfg (word_of_int (y1 area)) (word_of_int (y2 area)) s
          = Some (s\<lparr>full_refresh_row_bitmap := bm'\<rparr>)"
    and l: "length bm' = length (full_refresh_row_bitmap s)"
    and b: "\<forall>i. row_covered bm' i =
                  (row_covered (full_refresh_row_bitmap s) i
                   \<or> (unat (word_of_int (y1 area) :: u16) \<le> i
                       \<and> i \<le> unat (word_of_int (y2 area) :: u16) \<and> i < SCREEN_HEIGHT cfg))"
    unfolding mark_rows_covered_def by blast
  let ?t = "s\<lparr>full_refresh_row_bitmap := bm'\<rparr>"
  have okt: "state_ok cfg ?t" using ok l by (simp add: state_ok_def)
  have lent: "(SCREEN_HEIGHT cfg + 7) div 8 \<le> length (full_refresh_row_bitmap ?t)"
    using len l by simp
  define c where "c \<longleftrightarrow> (\<forall>row<SCREEN_HEIGHT cfg. row_covered bm' row)"
  have a: "all_rows_covered cfg ?t = Some c"
    using all_rows_covered_iff [OF H lent] by (simp add: c_def)
  have r: "perform_full_refresh cfg ?t =
      Some (s\<lparr>partial_update_count := 0,
              full_refresh_pending := False,
              full_refresh_row_bitmap := replicate (length (full_refresh_row_bitmap s)) 0,
              trace := trace s @ refresh_events cfg (full_frame_buffer s)\<rparr>)"
    using perform_full_refresh_ok [OF cfg okt] l by simp
  have "check_coverage cfg area s =
      Some (if c
            then s\<lparr>partial_update_count := 0,
                   full_refresh_pending := False,
                   full_refresh_row_bitmap := replicate (length (full_refresh_row_bitmap s)) 0,
                   trace := trace s @ refresh_events cfg (full_frame_buffer s)\<rparr>
            else ?t)"
    unfolding check_coverage_def using pend by (cases c) (simp_all add: m a r)
  with m l b show ?thesis unfolding c_def by blast
qed


subsection \<open>The example panel\<close>

lemma small_panel_simps [simp]:
  "SCREEN_WIDTH small_panel = 16" "SCREEN_HEIGHT small_panel = 10"
  "MAX_PARTIAL_UPDATES small_panel = 2" "more_pages small_panel = 0"
  by (simp_all add: small_panel_def)

lemma cfg_ok_small_panel: "cfg_ok small_panel"
  by (simp add: cfg_ok_def)

lemma state_ok_initial: "state_ok cfg (initial cfg)"
  by (simp add: state_ok_def initial_def)

subsection \<open>The flush as a whole\<close>

lemma row_bitmap_eqI:
  assumes "length a = length b" and "\<And>i. row_covered a i = row_covered b i"
  shows "a = b"
proof (rule nth_equalityI)
  show "length a = length b" by (rule assms(1))
  fix j assume "j < length a"
  show "a ! j = b ! j"
  proof (rule bit_word_eqI)
    fix n assume "n < LENGTH(8)"
    then have n: "n < 8" by simp
    have "row_covered a (8 * j + n) = row_covered b (8 * j + n)" by (rule assms(2))
    then show "bit (a ! j) n = bit (b ! j) n" using n by (simp add: row_covered_def)
  qed
qed

lemma replay_events_no_hibernate: "Hibernate \<notin> set (replay_events cfg fb)"
  by (auto simp add: replay_events_def)

lemma replay_events_no_flush_ready: "FlushReady \<notin> set (replay_events cfg fb)"
  by (auto simp add: replay_events_def)

lemma count_concat_replicate:
  "count_list (concat (replicate n xs)) x = n * count_list xs x"
  by (induction n) simp_all

lemma refresh_events_hibernate: "count_list (refresh_events cfg fb) Hibernate = 1"
  using replay_events_no_hibernate [of cfg fb]
  by (simp add: refresh_events_def count_concat_replicate count_list_0_iff)

lemma refresh_events_flush_ready: "count_list (refresh_events cfg fb) FlushReady = 0"
  using replay_events_no_flush_ready [of cfg fb]
  by (simp add: refresh_events_def count_concat_replicate count_list_0_iff)

lemma draw_events_count:
  assumes "list_all draw_event evs"
  shows "count_list evs Hibernate = 0" "count_list evs FlushReady = 0"
  using assms by (auto simp add: count_list_0_iff list_all_iff)

lemma flush_start_simps [simp]:
  "partial_update_count (flush_start area s) = partial_update_count s + 1"
  "full_frame_buffer (flush_start area s) = full_frame_buffer s"
  "full_refresh_pending (flush_start area s) = full_refresh_pending s"
  "full_refresh_row_bitmap (flush_start area s) = full_refresh_row_bitmap s"
  "trace (flush_start area s) =
     trace s @ [SetPartialWindow (x1 area) (y1 area) (area_width area) (area_height area)]"
  by (simp_all add: flush_start_def emit_def)

lemma state_ok_flush_start [simp]: "state_ok cfg (flush_start area s) = state_ok cfg s"
  by (simp add: state_ok_def)

lemma region_rel_state_ok: "region_rel s t \<Longrightarrow> state_ok cfg s \<Longrightarrow> state_ok cfg t"
  by (simp add: region_rel_def state_ok_def)

lemma flush_steps:
  assumes "my_disp_flush cfg area px_map malloc_result s = Some s'"
  obtains t u where "update_region cfg area px_map malloc_result (flush_start area s) = Some t"
    and "region_rel (flush_start area s) t"
    and "check_coverage cfg area t = Some u"
    and "s' = emit FlushReady u"
proof -
  from assms obtain t u where
    a: "update_region cfg area px_map malloc_result (flush_start area s) = Some t"
    and b: "check_coverage cfg area t = Some u" and c: "s' = emit FlushReady u"
    unfolding my_disp_flush_split by (auto split: option.splits)
  from a have "region_rel (flush_start area s) t" by (rule update_region_rel)
  with a b c show ?thesis using that by blast
qed


lemma mark_rows_covered_frame:
  assumes cfg: "cfg_ok cfg" and ok: "state_ok cfg s"
    and same: "full_refresh_row_bitmap t = full_refresh_row_bitmap s"
    and m: "mark_rows_covered cfg a b t = Some (t\<lparr>full_refresh_row_bitmap := bm\<rparr>)"
  shows "mark_rows_covered cfg a b s = Some (s\<lparr>full_refresh_row_bitmap := bm\<rparr>)"
proof -
  have H: "SCREEN_HEIGHT cfg < 65536" using cfg by (simp add: cfg_ok_def)
  have len: "(SCREEN_HEIGHT cfg + 7) div 8 \<le> length (full_refresh_row_bitmap s)"
    using ok by (simp add: state_ok_def)
  have lent: "(SCREEN_HEIGHT cfg + 7) div 8 \<le> length (full_refresh_row_bitmap t)"
    using len same by simp
  from mark_rows_loop_bitmap [OF H len, of a b] obtain bs where
    s: "mark_rows_covered cfg a b s = Some (s\<lparr>full_refresh_row_bitmap := bs\<rparr>)"
    "length bs = length (full_refresh_row_bitmap s)"
    "\<And>i. row_covered bs i = (row_covered (full_refresh_row_bitmap s) i
        \<or> (unat a \<le> i \<and> i \<le> unat b \<and> i < SCREEN_HEIGHT cfg))"
    unfolding mark_rows_covered_def by blast
  from mark_rows_loop_bitmap [OF H lent, of a b] obtain bt where
    t: "mark_rows_covered cfg a b t = Some (t\<lparr>full_refresh_row_bitmap := bt\<rparr>)"
    "length bt = length (full_refresh_row_bitmap t)"
    "\<And>i. row_covered bt i = (row_covered (full_refresh_row_bitmap t) i
        \<or> (unat a \<le> i \<and> i \<le> unat b \<and> i < SCREEN_HEIGHT cfg))"
    unfolding mark_rows_covered_def by blast
  have "bs = bt" using s(2,3) t(2,3) same by (intro row_bitmap_eqI) simp_all
  moreover have "bt = bm"
  proof -
    from t(1) m have "t\<lparr>full_refresh_row_bitmap := bt\<rparr> = t\<lparr>full_refresh_row_bitmap := bm\<rparr>"
      by simp
    then have "full_refresh_row_bitmap (t\<lparr>full_refresh_row_bitmap := bt\<rparr>)
        = full_refresh_row_bitmap (t\<lparr>full_refresh_row_bitmap := bm\<rparr>)" by (rule arg_cong)
    then show ?thesis by simp
  qed
  ultimately show ?thesis using s(1) by simp
qed

lemma flush_alloc_failure:
  assumes cfg: "cfg_ok cfg" and ok: "state_ok cfg s"
  shows "\<exists>bm'. mark_rows_covered cfg (word_of_int (y1 area)) (word_of_int (y2 area)) s
              = Some (s\<lparr>full_refresh_row_bitmap := bm'\<rparr>)
           \<and> length bm' = length (full_refresh_row_bitmap s)
           \<and> (\<forall>i. row_covered bm' i =
                  (row_covered (full_refresh_row_bitmap s) i
                   \<or> (unat (word_of_int (y1 area) :: u16) \<le> i
                       \<and> i \<le> unat (word_of_int (y2 area) :: u16) \<and> i < SCREEN_HEIGHT cfg)))
           \<and> my_disp_flush cfg area px_map None s =
               Some (if full_refresh_pending s
                     then (if \<forall>row<SCREEN_HEIGHT cfg. row_covered bm' row
                           then s\<lparr>partial_update_count := 0,
                                  full_refresh_pending := False,
                                  full_refresh_row_bitmap :=
                                    replicate (length (full_refresh_row_bitmap s)) 0,
                                  trace := trace s @ failed_update_events cfg area
                                    @ refresh_events cfg (full_frame_buffer s) @ [FlushReady]\<rparr>
                           else s\<lparr>partial_update_count := partial_update_count s + 1,
                                  full_refresh_row_bitmap := bm',
                                  trace := trace s @ failed_update_events cfg area @ [FlushReady]\<rparr>)
                     else s\<lparr>partial_update_count := partial_update_count s + 1,
                            trace := trace s @ failed_update_events cfg area @ [FlushReady]\<rparr>)"
proof -
  let ?ev = "[Println ''[ERROR] Failed to allocate EPD buffer!'', FirstPage]
                  @ replicate (Suc (more_pages cfg)) NextPage"
  let ?t = "emits ?ev (flush_start area s)"
  have u: "update_region cfg area px_map None (flush_start area s) = Some ?t"
    by (rule update_region_fail)
  have okt: "state_ok cfg ?t" using ok by simp
  have H: "SCREEN_HEIGHT cfg < 65536" using cfg by (simp add: cfg_ok_def)
  have len: "(SCREEN_HEIGHT cfg + 7) div 8 \<le> length (full_refresh_row_bitmap s)"
    using ok by (simp add: state_ok_def)
  from mark_rows_loop_bitmap [OF H len, of "word_of_int (y1 area)" "word_of_int (y2 area)"]
  obtain bm' where
    m: "mark_rows_covered cfg (word_of_int (y1 area)) (word_of_int (y2 area)) s
              = Some (s\<lparr>full_refresh_row_bitmap := bm'\<rparr>)"
    and l: "length bm' = length (full_refresh_row_bitmap s)"
    and b: "\<forall>i. row_covered bm' i =
                  (row_covered (full_refresh_row_bitmap s) i
                   \<or> (unat (word_of_int (y1 area) :: u16) \<le> i
                       \<and> i \<le> unat (word_of_int (y2 area) :: u16) \<and> i < SCREEN_HEIGHT cfg))"
    unfolding mark_rows_covered_def by blast
  have tr: "trace ?t @ evs = trace s @ failed_update_events cfg area @ evs" for evs
    by (simp add: failed_update_events_def)
  define c where "c \<longleftrightarrow> (\<forall>row<SCREEN_HEIGHT cfg. row_covered bm' row)"
  have "my_disp_flush cfg area px_map None s =
               Some (if full_refresh_pending s
                     then (if c
                           then s\<lparr>partial_update_count := 0,
                                  full_refresh_pending := False,
                                  full_refresh_row_bitmap :=
                                    replicate (length (full_refresh_row_bitmap s)) 0,
                                  trace := trace s @ failed_update_events cfg area
                                    @ refresh_events cfg (full_frame_buffer s) @ [FlushReady]\<rparr>
                           else s\<lparr>partial_update_count := partial_update_count s + 1,
                                  full_refresh_row_bitmap := bm',
                                  trace := trace s @ failed_update_events cfg area @ [FlushReady]\<rparr>)
                     else s\<lparr>partial_update_count := partial_update_count s + 1,
                            trace := trace s @ failed_update_events cfg area @ [FlushReady]\<rparr>)"
  proof (cases "full_refresh_pending s")
    case False
    then have c: "check_coverage cfg area ?t = Some ?t" by (simp add: check_coverage_idle)
    show ?thesis
      unfolding my_disp_flush_split u option.case c
      using False by (simp add: emit_def emits_def flush_start_def failed_update_events_def)
  next
    case True
    then have pt: "full_refresh_pending ?t" by simp
    from check_coverage_armed [OF cfg okt pt, of area] obtain bt where
      mt: "mark_rows_covered cfg (word_of_int (y1 area)) (word_of_int (y2 area)) ?t
              = Some (?t\<lparr>full_refresh_row_bitmap := bt\<rparr>)"
      and ct: "check_coverage cfg area ?t =
               Some (if \<forall>row<SCREEN_HEIGHT cfg. row_covered bt row
                     then ?t\<lparr>partial_update_count := 0,
                            full_refresh_pending := False,
                            full_refresh_row_bitmap := replicate (length (full_refresh_row_bitmap ?t)) 0,
                            trace := trace ?t @ refresh_events cfg (full_frame_buffer ?t)\<rparr>
                     else ?t\<lparr>full_refresh_row_bitmap := bt\<rparr>)"
      by blast
    have "mark_rows_covered cfg (word_of_int (y1 area)) (word_of_int (y2 area)) s
              = Some (s\<lparr>full_refresh_row_bitmap := bt\<rparr>)"
      using cfg ok _ mt by (rule mark_rows_covered_frame) simp
    with m have "s\<lparr>full_refresh_row_bitmap := bm'\<rparr> = s\<lparr>full_refresh_row_bitmap := bt\<rparr>" by simp
    then have "full_refresh_row_bitmap (s\<lparr>full_refresh_row_bitmap := bm'\<rparr>)
        = full_refresh_row_bitmap (s\<lparr>full_refresh_row_bitmap := bt\<rparr>)" by (rule arg_cong)
    then have bt: "bt = bm'" by simp
    show ?thesis
      unfolding my_disp_flush_split u option.case ct bt c_def [symmetric]
      using True by (cases c) (simp_all add: emit_def emits_def flush_start_def failed_update_events_def)
  qed
  with m l b show ?thesis unfolding c_def by blast
qed


lemma failed_update_events_counts:
  "count_list (failed_update_events cfg area) Hibernate = 0"
  "count_list (failed_update_events cfg area) FlushReady = 0"
  by (simp_all add: failed_update_events_def count_list_0_iff)

lemma flush_effect:
  assumes cfg: "cfg_ok cfg" and ok: "state_ok cfg s"
    and fl: "my_disp_flush cfg area px_map malloc_result s = Some s'"
  shows "\<exists>bm'. mark_rows_covered cfg (word_of_int (y1 area)) (word_of_int (y2 area)) s
              = Some (s\<lparr>full_refresh_row_bitmap := bm'\<rparr>)
          \<and> (if full_refresh_pending s \<and> (\<forall>row<SCREEN_HEIGHT cfg. row_covered bm' row)
              then refresh_count s' = Suc (refresh_count s) \<and> partial_update_count s' = 0
                   \<and> \<not> full_refresh_pending s'
              else refresh_count s' = refresh_count s
                   \<and> partial_update_count s' = partial_update_count s + 1
                   \<and> full_refresh_pending s' = full_refresh_pending s
                   \<and> full_refresh_row_bitmap s' =
                       (if full_refresh_pending s then bm' else full_refresh_row_bitmap s))
          \<and> state_ok cfg s'"
proof -
  from fl obtain t u where
    rel: "region_rel (flush_start area s) t"
    and cc: "check_coverage cfg area t = Some u"
    and s': "s' = emit FlushReady u"
    by (rule flush_steps)
  have okt: "state_ok cfg t" using rel ok by (auto intro: region_rel_state_ok)
  from rel obtain evs where
    t: "partial_update_count t = partial_update_count s + 1"
      "full_refresh_pending t = full_refresh_pending s"
      "full_refresh_row_bitmap t = full_refresh_row_bitmap s"
      "length (full_frame_buffer t) = length (full_frame_buffer s)"
      "trace t = trace s @ SetPartialWindow (x1 area) (y1 area) (area_width area) (area_height area) # evs"
      "list_all draw_event evs"
    unfolding region_rel_def by auto
  have rt: "refresh_count t = refresh_count s"
    using draw_events_count(1) [OF t(6)] by (simp add: refresh_count_def t(5))
  have H: "SCREEN_HEIGHT cfg < 65536" using cfg by (simp add: cfg_ok_def)
  have len: "(SCREEN_HEIGHT cfg + 7) div 8 \<le> length (full_refresh_row_bitmap s)"
    using ok by (simp add: state_ok_def)
  from mark_rows_loop_bitmap [OF H len, of "word_of_int (y1 area)" "word_of_int (y2 area)"]
  obtain bm' where
    m: "mark_rows_covered cfg (word_of_int (y1 area)) (word_of_int (y2 area)) s
              = Some (s\<lparr>full_refresh_row_bitmap := bm'\<rparr>)"
    and l: "length bm' = length (full_refresh_row_bitmap s)"
    unfolding mark_rows_covered_def by blast
  define c where "c \<longleftrightarrow> (\<forall>row<SCREEN_HEIGHT cfg. row_covered bm' row)"
  have "(if full_refresh_pending s \<and> c
              then refresh_count s' = Suc (refresh_count s) \<and> partial_update_count s' = 0
                   \<and> \<not> full_refresh_pending s'
              else refresh_count s' = refresh_count s
                   \<and> partial_update_count s' = partial_update_count s + 1
                   \<and> full_refresh_pending s' = full_refresh_pending s
                   \<and> full_refresh_row_bitmap s' =
                       (if full_refresh_pending s then bm' else full_refresh_row_bitmap s))
          \<and> state_ok cfg s'"
  proof (cases "full_refresh_pending s")
    case False
    then have "u = t" using cc t(2) by (simp add: check_coverage_idle)
    then show ?thesis
      using False t rt okt by (simp add: s' emit_def refresh_count_def state_ok_def)
  next
    case True
    then have pt: "full_refresh_pending t" using t(2) by simp
    from check_coverage_armed [OF cfg okt pt, of area] obtain bt where
      mt: "mark_rows_covered cfg (word_of_int (y1 area)) (word_of_int (y2 area)) t
              = Some (t\<lparr>full_refresh_row_bitmap := bt\<rparr>)"
      and lt: "length bt = length (full_refresh_row_bitmap t)"
      and ct: "check_coverage cfg area t =
               Some (if \<forall>row<SCREEN_HEIGHT cfg. row_covered bt row
                     then t\<lparr>partial_update_count := 0,
                            full_refresh_pending := False,
                            full_refresh_row_bitmap := replicate (length (full_refresh_row_bitmap t)) 0,
                            trace := trace t @ refresh_events cfg (full_frame_buffer t)\<rparr>
                     else t\<lparr>full_refresh_row_bitmap := bt\<rparr>)"
      by blast
    have "mark_rows_covered cfg (word_of_int (y1 area)) (word_of_int (y2 area)) s
              = Some (s\<lparr>full_refresh_row_bitmap := bt\<rparr>)"
      using cfg ok t(3) mt by (rule mark_rows_covered_frame)
    with m have "s\<lparr>full_refresh_row_bitmap := bm'\<rparr> = s\<lparr>full_refresh_row_bitmap := bt\<rparr>" by simp
    then have "full_refresh_row_bitmap (s\<lparr>full_refresh_row_bitmap := bm'\<rparr>)
        = full_refresh_row_bitmap (s\<lparr>full_refresh_row_bitmap := bt\<rparr>)" by (rule arg_cong)
    then have bt: "bt = bm'" by simp
    have u: "u = (if c
                     then t\<lparr>partial_update_count := 0,
                            full_refresh_pending := False,
                            full_refresh_row_bitmap := replicate (length (full_refresh_row_bitmap t)) 0,
                            trace := trace t @ refresh_events cfg (full_frame_buffer t)\<rparr>
                     else t\<lparr>full_refresh_row_bitmap := bm'\<rparr>)"
      using cc unfolding ct bt c_def by simp
    show ?thesis
    proof (cases c)
      case True
      then show ?thesis
        using \<open>full_refresh_pending s\<close> t rt okt
        by (simp add: u s' emit_def refresh_count_def state_ok_def refresh_events_hibernate)
    next
      case False
      then show ?thesis
        using \<open>full_refresh_pending s\<close> t rt okt l
        by (simp add: u s' emit_def refresh_count_def state_ok_def)
    qed
  qed
  with m show ?thesis unfolding c_def by blast
qed


lemma state_ok_armed_example: "state_ok small_panel armed_example"
  by (simp add: state_ok_def armed_example_def)

lemma mark_lower_rows:
  "mark_rows_covered small_panel (word_of_int (y1 lower_rows)) (word_of_int (y2 lower_rows))
     armed_example = Some (armed_example\<lparr>full_refresh_row_bitmap := [0xFF, 3]\<rparr>)"
  by (simp add: mark_rows_covered_def mark_rows_loop.simps lower_rows_def armed_example_def Let_def)

lemma mark_upper_rows:
  "mark_rows_covered small_panel (word_of_int (y1 upper_rows)) (word_of_int (y2 upper_rows))
     armed_example = Some (armed_example\<lparr>full_refresh_row_bitmap := [0x1F, 0]\<rparr>)"
  by (simp add: mark_rows_covered_def mark_rows_loop.simps upper_rows_def armed_example_def Let_def)

lemma all_rows_example: "\<forall>row<SCREEN_HEIGHT small_panel. row_covered [0xFF, 3] row"
proof -
  let ?s = "armed_example\<lparr>full_refresh_row_bitmap := [0xFF, 3]\<rparr>"
  have "all_rows_covered small_panel ?s =
      Some (\<forall>row<SCREEN_HEIGHT small_panel. row_covered (full_refresh_row_bitmap ?s) row)"
    by (rule all_rows_covered_iff) simp_all
  moreover have "all_rows_covered small_panel ?s = Some True"
    by (simp add: all_rows_covered_def Let_def upt_conv_Cons)
  ultimately show ?thesis by simp
qed

lemma not_all_rows_example: "\<not> (\<forall>row<SCREEN_HEIGHT small_panel. row_covered [0x1F, 0] row)"
proof -
  have "\<not> row_covered [0x1F, 0] 9" by (simp add: row_covered_def)
  moreover have "(9 :: nat) < SCREEN_HEIGHT small_panel" by simp
  ultimately show ?thesis by blast
qed

lemma row_bitmap_update_inj:
  "s\<lparr>full_refresh_row_bitmap := a\<rparr> = s\<lparr>full_refresh_row_bitmap := b\<rparr> \<Longrightarrow> a = b"
  by (drule arg_cong [where f = full_refresh_row_bitmap]) simp

lemma flush_lower_rows:
  "my_disp_flush small_panel lower_rows no_pixels None armed_example = Some fired_example"
proof -
  from flush_alloc_failure [OF cfg_ok_small_panel state_ok_armed_example, of lower_rows no_pixels]
  obtain bm' where
    m: "mark_rows_covered small_panel (word_of_int (y1 lower_rows)) (word_of_int (y2 lower_rows))
          armed_example = Some (armed_example\<lparr>full_refresh_row_bitmap := bm'\<rparr>)"
    and f: "my_disp_flush small_panel lower_rows no_pixels None armed_example =
               Some (if full_refresh_pending armed_example
                     then (if \<forall>row<SCREEN_HEIGHT small_panel. row_covered bm' row
                           then armed_example\<lparr>partial_update_count := 0,
                                  full_refresh_pending := False,
                                  full_refresh_row_bitmap :=
                                    replicate (length (full_refresh_row_bitmap armed_example)) 0,
                                  trace := trace armed_example @ failed_update_events small_panel lower_rows
                                    @ refresh_events small_panel (full_frame_buffer armed_example) @ [FlushReady]\<rparr>
                           else armed_example\<lparr>partial_update_count := partial_update_count armed_example + 1,
                                  full_refresh_row_bitmap := bm',
                                  trace := trace armed_example @ failed_update_events small_panel lower_rows @ [FlushReady]\<rparr>)
                     else armed_example\<lparr>partial_update_count := partial_update_count armed_example + 1,
                            trace := trace armed_example @ failed_update_events small_panel lower_rows @ [FlushReady]\<rparr>)"
    by blast
  have bm: "bm' = [0xFF, 3]" using m mark_lower_rows by (auto dest: row_bitmap_update_inj)
  show ?thesis
    unfolding f bm
    by (simp only: all_rows_example [THEN eqTrueI] if_True)
       (simp add: armed_example_def fired_example_def)
qed

lemma flush_upper_rows:
  "my_disp_flush small_panel upper_rows no_pixels None armed_example = Some waiting_example"
proof -
  from flush_alloc_failure [OF cfg_ok_small_panel state_ok_armed_example, of upper_rows no_pixels]
  obtain bm' where
    m: "mark_rows_covered small_panel (word_of_int (y1 upper_rows)) (word_of_int (y2 upper_rows))
          armed_example = Some (armed_example\<lparr>full_refresh_row_bitmap := bm'\<rparr>)"
    and f: "my_disp_flush small_panel upper_rows no_pixels None armed_example =
               Some (if full_refresh_pending armed_example
                     then (if \<forall>row<SCREEN_HEIGHT small_panel. row_covered bm' row
                           then armed_example\<lparr>partial_update_count := 0,
                                  full_refresh_pending := False,
                                  full_refresh_row_bitmap :=
                                    replicate (length (full_refresh_row_bitmap armed_example)) 0,
                                  trace := trace armed_example @ failed_update_events small_panel upper_rows
                                    @ refresh_events small_panel (full_frame_buffer armed_example) @ [FlushReady]\<rparr>
                           else armed_example\<lparr>partial_update_count := partial_update_count armed_example + 1,
                                  full_refresh_row_bitmap := bm',
                                  trace := trace armed_example @ failed_update_events small_panel upper_rows @ [FlushReady]\<rparr>)
                     else armed_example\<lparr>partial_update_count := partial_update_count armed_example + 1,
                            trace := trace armed_example @ failed_update_events small_panel upper_rows @ [FlushReady]\<rparr>)"
    by blast
  have bm: "bm' = [0x1F, 0]" using m mark_upper_rows by (auto dest: row_bitmap_update_inj)
  show ?thesis
    unfolding f bm
    by (simp only: not_all_rows_example if_False) (simp add: armed_example_def waiting_example_def)
qed

lemma example_refresh_counts:
  "refresh_count armed_example = 0" "refresh_count waiting_example = 0"
  "refresh_count fired_example = 1"
  by (simp_all add: refresh_count_def armed_example_def waiting_example_def fired_example_def
        failed_update_events_counts refresh_events_hibernate)

subsection \<open>Flushes within the panel\<close>

lemma area_dims:
  assumes cfg: "cfg_ok cfg" and a: "area_ok cfg area"
  obtains X0 Y0 where "x1 area = int X0" "y1 area = int Y0"
    and "x2 area = int (X0 + area_width area) - 1" "y2 area = int (Y0 + area_height area) - 1"
    and "X0 + area_width area \<le> SCREEN_WIDTH cfg" "Y0 + area_height area \<le> SCREEN_HEIGHT cfg"
    and "area_stride area = (area_width area + 7) div 8"
    and "area_width area \<le> 8 * area_stride area"
    and "area_stride area * area_height area < 2 ^ 32"
proof -
  let ?W = "SCREEN_WIDTH cfg" and ?H = "SCREEN_HEIGHT cfg"
  have W: "?W < 65536" and H: "?H < 65536" using cfg by (simp_all add: cfg_ok_def)
  define X0 where "X0 = nat (x1 area)"
  define Y0 where "Y0 = nat (y1 area)"
  have x: "x1 area = int X0" and y: "y1 area = int Y0"
    using a by (simp_all add: area_ok_def X0_def Y0_def)
  have wi: "x2 area - x1 area + 1 < 2 ^ 32" "0 \<le> x2 area - x1 area + 1"
    and hi: "y2 area - y1 area + 1 < 2 ^ 32" "0 \<le> y2 area - y1 area + 1"
    using a W H by (simp_all add: area_ok_def)
  have w: "int (area_width area) = x2 area - x1 area + 1"
    using wi by (simp add: area_width_def u32_def)
  have h: "int (area_height area) = y2 area - y1 area + 1"
    using hi by (simp add: area_height_def u32_def)
  have fx: "X0 + area_width area \<le> ?W" using a w x by (simp add: area_ok_def)
  have fy: "Y0 + area_height area \<le> ?H" using a h y by (simp add: area_ok_def)
  have wb: "area_width area < 65536" using fx W by simp
  have hb: "area_height area < 65536" using fy H by simp
  have st: "area_stride area = (area_width area + 7) div 8"
    using wb by (simp add: area_stride_def)
  have sb: "area_stride area \<le> 8192" using wb unfolding st by simp
  have "area_stride area * area_height area \<le> 8192 * 65536"
    using sb hb by (intro mult_le_mono) simp_all
  then have prod: "area_stride area * area_height area < 2 ^ 32" by simp
  have ws: "area_width area \<le> 8 * area_stride area" unfolding st by simp
  show ?thesis
    using x y w h fx fy st ws prod by (intro that [of X0 Y0]) simp_all
qed


lemma update_region_ok:
  assumes cfg: "cfg_ok cfg" and ok: "state_ok cfg s" and a: "area_ok cfg area"
    and src: "src_ok px_map (area_stride area) (area_width area) (area_height area)"
  shows "\<exists>buf fb'.
           convert_rows cfg area px_map (area_width area) (area_height area)
               (area_stride area) (area_stride area)
               (map junk [0..<(area_stride area * area_height area) mod 2 ^ 32], s)
             = Some (buf, s\<lparr>full_frame_buffer := fb'\<rparr>)
           \<and> update_region cfg area px_map (Some junk) s =
               Some (s\<lparr>full_frame_buffer := fb', trace := trace s @ page_events cfg area buf\<rparr>)
           \<and> length buf = area_stride area * area_height area
           \<and> conv_good px_map (area_stride area) (area_width area) buf
                (area_stride area * area_height area)
           \<and> length fb' = length (full_frame_buffer s)
           \<and> (\<forall>X Y. X < SCREEN_WIDTH cfg \<longrightarrow> Y < SCREEN_HEIGHT cfg \<longrightarrow>
                 shadow_pixel cfg fb' X Y =
                   (if in_area area X Y then flushed_black area px_map X Y
                    else shadow_pixel cfg (full_frame_buffer s) X Y))"
proof -
  let ?w = "area_width area" and ?h = "area_height area" and ?st = "area_stride area"
  from cfg a obtain X0 Y0 where
    x: "x1 area = int X0" and y: "y1 area = int Y0"
    and x2: "x2 area = int (X0 + ?w) - 1" and y2: "y2 area = int (Y0 + ?h) - 1"
    and fit: "X0 + ?w \<le> SCREEN_WIDTH cfg" "Y0 + ?h \<le> SCREEN_HEIGHT cfg"
    and ws: "?w \<le> 8 * ?st" and prod: "?st * ?h < 2 ^ 32"
    by (rule area_dims)
  have m: "(?st * ?h) mod 2 ^ 32 = ?st * ?h" using prod by simp
  let ?buf0 = "map junk [0..<?st * ?h]"
  have l0: "length ?buf0 = ?st * ?h" by simp
  from convert_rows_ok [OF cfg ok x y fit ws prod src l0]
  obtain buf t where
    c: "convert_rows cfg area px_map ?w ?h ?st ?st (?buf0, s) = Some (buf, t)"
    and p: "painted cfg X0 Y0 (\<lambda>a b. a < ?w \<and> b < ?h) (source_black px_map ?st) s t"
    and l: "length buf = ?st * ?h"
    and g: "conv_good px_map ?st ?w buf (?st * ?h)"
    by blast
  from p obtain fb' where t: "t = s\<lparr>full_frame_buffer := fb'\<rparr>"
    and lf: "length fb' = length (full_frame_buffer s)"
    and px: "\<And>X Y. X < SCREEN_WIDTH cfg \<Longrightarrow> Y < SCREEN_HEIGHT cfg \<Longrightarrow>
              shadow_pixel cfg fb' X Y =
                (if X0 \<le> X \<and> Y0 \<le> Y \<and> (X - X0 < ?w \<and> Y - Y0 < ?h)
                 then source_black px_map ?st (X - X0) (Y - Y0)
                 else shadow_pixel cfg (full_frame_buffer s) X Y)"
    unfolding painted_def by blast
  have d: "page_loop (more_pages cfg) (draw_rows area ?w ?h ?st buf) (emits [FirstPage] t) =
      Some (emits (concat (replicate (Suc (more_pages cfg))
              (draw_events area ?w ?h ?st buf @ [NextPage]))) (emits [FirstPage] t))"
  proof (rule page_loop_emits [where Q = "\<lambda>t. True" and fb = "full_frame_buffer t"])
    fix u
    show "draw_rows area ?w ?h ?st buf u = Some (emits (draw_events area ?w ?h ?st buf) u)"
      using prod l by (intro draw_rows_emits) simp_all
  qed simp_all
  have u: "update_region cfg area px_map (Some junk) s =
      Some (s\<lparr>full_frame_buffer := fb', trace := trace s @ page_events cfg area buf\<rparr>)"
    unfolding update_region_def m option.case c prod.case emit_emits d
    by (simp add: t emits_def page_events_def)
  have q: "shadow_pixel cfg fb' X Y =
      (if in_area area X Y then flushed_black area px_map X Y
       else shadow_pixel cfg (full_frame_buffer s) X Y)"
    if "X < SCREEN_WIDTH cfg" "Y < SCREEN_HEIGHT cfg" for X Y
  proof -
    have i: "in_area area X Y \<longleftrightarrow> X0 \<le> X \<and> Y0 \<le> Y \<and> (X - X0 < ?w \<and> Y - Y0 < ?h)"
      unfolding in_area_def x y x2 y2 by auto
    have f: "flushed_black area px_map X Y = source_black px_map ?st (X - X0) (Y - Y0)"
      if "X0 \<le> X" "Y0 \<le> Y"
      using that unfolding flushed_black_def x y by (simp add: nat_diff_distrib' flip: of_nat_diff)
    show ?thesis unfolding px [OF that] i using f by auto
  qed
  from c u l g lf q show ?thesis unfolding m t by blast
qed


lemma src_bytes_member: "x < w \<Longrightarrow> y < h \<Longrightarrow> 8 + y * stride + x div 8 \<in> src_bytes stride w h"
  unfolding src_bytes_def by (rule image_eqI [where x = "(x, y)"]) simp_all

lemma convert_bit_restrict:
  assumes str: "w \<le> 8 * stride" "stride * h < 2 ^ 32" and y: "y < h" and k: "k < 8"
  shows "convert_bit cfg area (px_map |` src_bytes stride w h) w stride y bx k et =
         convert_bit cfg area px_map w stride y bx k et"
proof (cases "bx * 8 + k < w")
  case False
  then show ?thesis by (cases et) simp
next
  case True
  let ?x = "bx * 8 + k"
  have xd: "?x div 8 = bx" using k by simp
  have "bx < stride" using True str(1) by arith
  then have "y * stride + bx < stride * h" using y by (rule pixel_index_bound)
  then have idx: "(y * stride + ?x div 8) mod 2 ^ 32 = y * stride + ?x div 8"
    using str(2) unfolding xd by simp
  have "8 + y * stride + ?x div 8 \<in> src_bytes stride w h"
    using True y by (rule src_bytes_member)
  then have "(px_map |` src_bytes stride w h) (8 + (y * stride + ?x div 8)) =
      px_map (8 + (y * stride + ?x div 8))"
    by (simp add: add.assoc)
  then show ?thesis
    by (cases et) (simp only: convert_bit.simps Let_def idx)
qed

lemma convert_rows_restrict:
  assumes str: "w \<le> 8 * stride" "stride * h < 2 ^ 32"
  shows "convert_rows cfg area (px_map |` src_bytes stride w h) w h stride stride bs =
         convert_rows cfg area px_map w h stride stride bs"
  unfolding convert_rows_def
proof (rule for_range_cong)
  fix y u assume "y \<in> set [0..<h]"
  then have y: "y < h" by simp
  show "for_range [0..<stride]
          (convert_byte cfg area (px_map |` src_bytes stride w h) w stride stride y) u =
        for_range [0..<stride] (convert_byte cfg area px_map w stride stride y) u"
  proof (rule for_range_cong)
    fix bx p
    have "for_range [0..<8] (convert_bit cfg area (px_map |` src_bytes stride w h) w stride y bx) q =
          for_range [0..<8] (convert_bit cfg area px_map w stride y bx) q" for q
      by (rule for_range_cong) (use str y in \<open>simp add: convert_bit_restrict\<close>)
    then show "convert_byte cfg area (px_map |` src_bytes stride w h) w stride stride y bx p =
          convert_byte cfg area px_map w stride stride y bx p"
      by (cases p) (simp only: convert_byte.simps)
  qed
qed

lemma window_example_dims:
  "area_width window_example = 10" "area_height window_example = 2"
  "area_stride window_example = 2"
  by (simp_all add: area_width_def area_height_def area_stride_def window_example_def u32_def)

lemma area_ok_window_example: "area_ok small_panel window_example"
  by (simp add: area_ok_def window_example_def)

lemma src_ok_window_example:
  "src_ok pixels_example (area_stride window_example) (area_width window_example)
     (area_height window_example)"
  unfolding window_example_dims src_ok_def
proof (intro allI impI)
  fix x y :: nat assume "x < 10" "y < 2"
  then have "8 + y * 2 + x div 8 < 12" by arith
  then show "pixels_example (8 + y * 2 + x div 8) \<noteq> None"
    by (simp add: pixels_example_def)
qed

lemma convert_example:
  "convert_rows small_panel window_example pixels_example 10 2 2 2
     (map junk_example [0..<4], initial small_panel) =
   Some ([0x5A, 0x80, 0x00, 0xC0],
         (initial small_panel)\<lparr>full_frame_buffer :=
            (replicate 20 0)[4 := 11, 5 := 80, 6 := 0, 7 := 24]\<rparr>)"
  by (simp add: convert_rows_def upt_conv_Cons set_full_frame_pixel_def Let_def initial_def
        pixels_example_def junk_example_def window_example_def)

lemma check_coverage_total:
  assumes cfg: "cfg_ok cfg" and ok: "state_ok cfg t"
  shows "\<exists>u. check_coverage cfg area t = Some u
           \<and> full_frame_buffer u = full_frame_buffer t \<and> state_ok cfg u"
proof (cases "full_refresh_pending t")
  case False
  then show ?thesis using ok by (simp add: check_coverage_idle)
next
  case True
  from check_coverage_armed [OF cfg ok True, of area] obtain bm' where
    l: "length bm' = length (full_refresh_row_bitmap t)"
    and c: "check_coverage cfg area t =
               Some (if \<forall>row<SCREEN_HEIGHT cfg. row_covered bm' row
                     then t\<lparr>partial_update_count := 0,
                            full_refresh_pending := False,
                            full_refresh_row_bitmap := replicate (length (full_refresh_row_bitmap t)) 0,
                            trace := trace t @ refresh_events cfg (full_frame_buffer t)\<rparr>
                     else t\<lparr>full_refresh_row_bitmap := bm'\<rparr>)"
    by blast
  show ?thesis
    unfolding c using ok l by (auto simp add: state_ok_def)
qed

lemma step_shadow:
  assumes cfg: "cfg_ok cfg" and ok: "state_ok cfg s" and good: "good_call cfg c"
  shows "\<exists>s'. step cfg c s = Some s' \<and> state_ok cfg s'
           \<and> (\<forall>X Y. X < SCREEN_WIDTH cfg \<longrightarrow> Y < SCREEN_HEIGHT cfg \<longrightarrow>
                 shadow_pixel cfg (full_frame_buffer s') X Y =
                   (case painted_by c X Y of
                      Some b \<Rightarrow> b
                    | None \<Rightarrow> shadow_pixel cfg (full_frame_buffer s) X Y))"
proof (cases c)
  case ThresholdCheck
  then show ?thesis
    using ok
    by (simp add: eink_force_full_refresh_def schedule_full_refresh_request_def emit_def
          state_ok_def)
next
  case (Flush area px_map malloc_result)
  show ?thesis
  proof (cases malloc_result)
    case None
    from flush_alloc_failure [OF cfg ok, of area px_map] obtain bm' where
      l: "length bm' = length (full_refresh_row_bitmap s)"
      and f: "my_disp_flush cfg area px_map None s =
               Some (if full_refresh_pending s
                     then (if \<forall>row<SCREEN_HEIGHT cfg. row_covered bm' row
                           then s\<lparr>partial_update_count := 0,
                                  full_refresh_pending := False,
                                  full_refresh_row_bitmap :=
                                    replicate (length (full_refresh_row_bitmap s)) 0,
                                  trace := trace s @ failed_update_events cfg area
                                    @ refresh_events cfg (full_frame_buffer s) @ [FlushReady]\<rparr>
                           else s\<lparr>partial_update_count := partial_update_count s + 1,
                                  full_refresh_row_bitmap := bm',
                                  trace := trace s @ failed_update_events cfg area @ [FlushReady]\<rparr>)
                     else s\<lparr>partial_update_count := partial_update_count s + 1,
                            trace := trace s @ failed_update_events cfg area @ [FlushReady]\<rparr>)"
      by blast
    show ?thesis
      unfolding Flush None step.simps f painted_by.simps
      using ok l by (auto simp add: state_ok_def)
  next
    case (Some junk)
    have a: "area_ok cfg area"
      and src: "src_ok px_map (area_stride area) (area_width area) (area_height area)"
      using good unfolding Flush Some by simp_all
    let ?s1 = "flush_start area s"
    have ok1: "state_ok cfg ?s1" using ok by simp
    from update_region_ok [OF cfg ok1 a src, of junk] obtain buf fb' where
      u: "update_region cfg area px_map (Some junk) ?s1 =
               Some (?s1\<lparr>full_frame_buffer := fb', trace := trace ?s1 @ page_events cfg area buf\<rparr>)"
      and lf: "length fb' = length (full_frame_buffer ?s1)"
      and px: "\<forall>X Y. X < SCREEN_WIDTH cfg \<longrightarrow> Y < SCREEN_HEIGHT cfg \<longrightarrow>
                 shadow_pixel cfg fb' X Y =
                   (if in_area area X Y then flushed_black area px_map X Y
                    else shadow_pixel cfg (full_frame_buffer ?s1) X Y)"
      by blast
    let ?t = "?s1\<lparr>full_frame_buffer := fb', trace := trace ?s1 @ page_events cfg area buf\<rparr>"
    have okt: "state_ok cfg ?t" using ok lf by (simp add: state_ok_def)
    from check_coverage_total [OF cfg okt, of area] obtain v where
      v: "check_coverage cfg area ?t = Some v" "full_frame_buffer v = full_frame_buffer ?t"
        "state_ok cfg v"
      by blast
    have f: "my_disp_flush cfg area px_map (Some junk) s = Some (emit FlushReady v)"
      unfolding my_disp_flush_split u option.case v(1) ..
    have "state_ok cfg (emit FlushReady v)" using v(3) by (simp add: emit_emits)
    moreover have "full_frame_buffer (emit FlushReady v) = fb'"
      using v(2) by (simp add: emit_emits)
    ultimately show ?thesis
      unfolding Flush Some step.simps f painted_by.simps using px by simp
  qed
qed

lemma step_state_ok:
  assumes "cfg_ok cfg" "state_ok cfg s" "step cfg c s = Some s'"
  shows "state_ok cfg s'"
proof (cases c)
  case ThresholdCheck
  then show ?thesis
    using assms(2,3)
    by (auto simp add: eink_force_full_refresh_def schedule_full_refresh_request_def emit_def
          state_ok_def)
next
  case (Flush area px_map malloc_result)
  then have "my_disp_flush cfg area px_map malloc_result s = Some s'" using assms(3) by simp
  from flush_effect [OF assms(1,2) this] show ?thesis by blast
qed

lemma run_state_ok:
  assumes "cfg_ok cfg" "state_ok cfg s" "run cfg calls s = Some s'"
  shows "state_ok cfg s'"
  using assms(2,3)
proof (induction calls arbitrary: s)
  case Nil
  then show ?case by simp
next
  case (Cons c cs)
  from Cons.prems(2) obtain t where t: "step cfg c s = Some t" "run cfg cs t = Some s'"
    by (auto split: option.splits)
  have "state_ok cfg t" using assms(1) Cons.prems(1) t(1) by (rule step_state_ok)
  then show ?case using t(2) by (rule Cons.IH)
qed

lemma idle_flushes:
  assumes cfg: "cfg_ok cfg" and good: "good_call cfg (Flush area px_map malloc_result)"
    and ok: "state_ok cfg s" and idle: "\<not> full_refresh_pending s"
  shows "\<exists>s'. run cfg (replicate n (Flush area px_map malloc_result)) s = Some s'
           \<and> state_ok cfg s' \<and> \<not> full_refresh_pending s'
           \<and> refresh_count s' = refresh_count s
           \<and> partial_update_count s' = partial_update_count s + of_nat n"
  using ok idle
proof (induction n arbitrary: s)
  case 0
  then show ?case by simp
next
  case (Suc n)
  from step_shadow [OF cfg Suc.prems(1) good] obtain t where
    t: "step cfg (Flush area px_map malloc_result) s = Some t" "state_ok cfg t"
    by blast
  then have f: "my_disp_flush cfg area px_map malloc_result s = Some t" by simp
  from flush_effect [OF cfg Suc.prems(1) f] Suc.prems(2)
  have e: "refresh_count t = refresh_count s"
    "partial_update_count t = partial_update_count s + 1"
    "\<not> full_refresh_pending t"
    by auto
  from Suc.IH [OF t(2) e(3)] obtain s' where
    s': "run cfg (replicate n (Flush area px_map malloc_result)) t = Some s'"
      "state_ok cfg s'" "\<not> full_refresh_pending s'"
      "refresh_count s' = refresh_count t"
      "partial_update_count s' = partial_update_count t + of_nat n"
    by blast
  have "run cfg (replicate (Suc n) (Flush area px_map malloc_result)) s = Some s'"
    using t(1) s'(1) by simp
  then show ?case using s' e by simp
qed

lemma good_one_flush: "good_call small_panel one_flush"
  unfolding one_flush_def using area_ok_window_example src_ok_window_example by simp

lemma area_ok_full_window: "area_ok small_panel full_window"
  by (simp add: area_ok_def full_window_def)

lemma full_window_dims:
  "area_width full_window = 16" "area_height full_window = 10" "area_stride full_window = 2"
  by (simp_all add: area_width_def area_height_def area_stride_def full_window_def u32_def)

lemma src_ok_full_window:
  "src_ok full_pixels (area_stride full_window) (area_width full_window) (area_height full_window)"
  unfolding full_window_dims src_ok_def
proof (intro allI impI)
  fix x y :: nat assume "x < 16" "y < 10"
  then have "8 + y * 2 + x div 8 < 28" by arith
  then show "full_pixels (8 + y * 2 + x div 8) \<noteq> None"
    by (simp add: full_pixels_def)
qed

lemma good_example_calls:
  "list_all (good_call small_panel)
     [one_flush, ThresholdCheck, Flush lower_rows no_pixels None,
      Flush full_window full_pixels (Some junk_example)]"
  using good_one_flush area_ok_full_window src_ok_full_window by simp

lemma last_flushed_example:
  "last_flushed [one_flush, ThresholdCheck, Flush lower_rows no_pixels None,
      Flush full_window full_pixels (Some junk_example)] 4 2 = Some True"
  by (simp add: one_flush_def in_area_def full_window_def window_example_def flushed_black_def
        source_black_def area_stride_def area_width_def u32_def full_pixels_def)

lemma last_flushed_example2:
  "last_flushed [one_flush] 4 2 = Some True"
  "last_flushed [one_flush] 3 2 = Some False"
  "last_flushed [one_flush] 2 2 = None"
  by (simp_all add: one_flush_def in_area_def window_example_def flushed_black_def
        source_black_def area_stride_def area_width_def u32_def pixels_example_def)

subsection \<open>The counters after a flush\<close>

lemma src_ok_lower_rows:
  "src_ok full_pixels (area_stride lower_rows) (area_width lower_rows) (area_height lower_rows)"
proof -
  have d: "area_width lower_rows = 16" "area_height lower_rows = 5" "area_stride lower_rows = 2"
    by (simp_all add: area_width_def area_height_def area_stride_def lower_rows_def u32_def)
  show ?thesis
    unfolding d src_ok_def
  proof (intro allI impI)
    fix x y :: nat assume "x < 16" "y < 5"
    then have "8 + y * 2 + x div 8 < 28" by arith
    then show "full_pixels (8 + y * 2 + x div 8) \<noteq> None"
      by (simp add: full_pixels_def)
  qed
qed

lemma src_ok_upper_rows:
  "src_ok full_pixels (area_stride upper_rows) (area_width upper_rows) (area_height upper_rows)"
proof -
  have d: "area_width upper_rows = 16" "area_height upper_rows = 4" "area_stride upper_rows = 2"
    by (simp_all add: area_width_def area_height_def area_stride_def upper_rows_def u32_def)
  show ?thesis
    unfolding d src_ok_def
  proof (intro allI impI)
    fix x y :: nat assume "x < 16" "y < 4"
    then have "8 + y * 2 + x div 8 < 28" by arith
    then show "full_pixels (8 + y * 2 + x div 8) \<noteq> None"
      by (simp add: full_pixels_def)
  qed
qed

lemma good_lower_rows: "good_call small_panel (Flush lower_rows full_pixels (Some junk_example))"
  using src_ok_lower_rows by (simp add: area_ok_def lower_rows_def)

lemma good_upper_rows: "good_call small_panel (Flush upper_rows full_pixels (Some junk_example))"
  using src_ok_upper_rows by (simp add: area_ok_def upper_rows_def)

lemma state_ok_full_counter_example: "state_ok small_panel full_counter_example"
  by (simp add: state_ok_def full_counter_example_def armed_example_def)

lemma mark_upper_rows_full_counter:
  "mark_rows_covered small_panel (word_of_int (y1 upper_rows)) (word_of_int (y2 upper_rows))
        full_counter_example = Some (full_counter_example\<lparr>full_refresh_row_bitmap := [0x1F, 0]\<rparr>)"
  by (simp add: mark_rows_covered_def mark_rows_loop.simps full_counter_example_def
        armed_example_def upper_rows_def Let_def)

lemma flush_counts:
  assumes "cfg_ok cfg" "state_ok cfg s"
    and f: "my_disp_flush cfg area px_map malloc_result s = Some s'"
    and m: "mark_rows_covered cfg (word_of_int (y1 area)) (word_of_int (y2 area)) s = Some sm"
    and c: "c \<longleftrightarrow> full_refresh_pending s
              \<and> (\<forall>row<SCREEN_HEIGHT cfg. row_covered (full_refresh_row_bitmap sm) row)"
  shows "if c then refresh_count s' = Suc (refresh_count s) \<and> partial_update_count s' = 0
         else refresh_count s' = refresh_count s
              \<and> partial_update_count s' = partial_update_count s + 1"
proof -
  from flush_effect [OF assms(1,2) f] obtain bm' where
    m': "mark_rows_covered cfg (word_of_int (y1 area)) (word_of_int (y2 area)) s
              = Some (s\<lparr>full_refresh_row_bitmap := bm'\<rparr>)"
    and e: "if full_refresh_pending s \<and> (\<forall>row<SCREEN_HEIGHT cfg. row_covered bm' row)
              then refresh_count s' = Suc (refresh_count s) \<and> partial_update_count s' = 0
                   \<and> \<not> full_refresh_pending s'
              else refresh_count s' = refresh_count s
                   \<and> partial_update_count s' = partial_update_count s + 1
                   \<and> full_refresh_pending s' = full_refresh_pending s
                   \<and> full_refresh_row_bitmap s' =
                       (if full_refresh_pending s then bm' else full_refresh_row_bitmap s)"
    by blast
  have sm: "full_refresh_row_bitmap sm = bm'" using m m' by auto
  show ?thesis
    using e unfolding sm [symmetric] c [symmetric] by (cases c) simp_all
qed

lemma not_covered_example:
  "False \<longleftrightarrow> full_refresh_pending s
       \<and> (\<forall>row<SCREEN_HEIGHT small_panel.
            row_covered (full_refresh_row_bitmap (t\<lparr>full_refresh_row_bitmap := [0x1F, 0]\<rparr>)) row)"
  using not_all_rows_example by simp

lemma covered_example:
  "True \<longleftrightarrow> full_refresh_pending armed_example
   \<and> (\<forall>row<SCREEN_HEIGHT small_panel.
        row_covered (full_refresh_row_bitmap (t\<lparr>full_refresh_row_bitmap := [0xFF, 3]\<rparr>)) row)"
  using all_rows_example by (simp add: armed_example_def)


section \<open>The threshold check\<close>

text \<open>
  Claim C4. In a state that is not pending (Idle), \<^verbatim>\<open>eink_force_full_refresh\<close> with
  the counter at or above \<^verbatim>\<open>MAX_PARTIAL_UPDATES\<close> sets the pending flag, zeroes every
  byte of the row bitmap and adds exactly one invalidate-all call to the trace, changing
  nothing else; with the counter below the threshold it returns the state as it was.
  The statement holds in every state, so in every reachable one.
\<close>

theorem threshold_check_idle:
  assumes "\<not> full_refresh_pending s"
  shows "(MAX_PARTIAL_UPDATES cfg \<le> unat (partial_update_count s) \<longrightarrow>
            eink_force_full_refresh cfg s =
              s\<lparr>full_refresh_pending := True,
                full_refresh_row_bitmap := replicate (length (full_refresh_row_bitmap s)) 0,
                trace := trace s @ [InvalidateScreen]\<rparr>)
       \<and> (unat (partial_update_count s) < MAX_PARTIAL_UPDATES cfg \<longrightarrow>
            eink_force_full_refresh cfg s = s)"
  using assms
  by (simp add: eink_force_full_refresh_def schedule_full_refresh_request_def emit_def)

theorem threshold_check_idle_witness:
  "\<not> full_refresh_pending ((initial small_panel)\<lparr>partial_update_count := 2\<rparr>)
   \<and> MAX_PARTIAL_UPDATES small_panel
       \<le> unat (partial_update_count ((initial small_panel)\<lparr>partial_update_count := 2\<rparr>))
   \<and> eink_force_full_refresh small_panel ((initial small_panel)\<lparr>partial_update_count := 2\<rparr>) =
       \<lparr>partial_update_count = 2, full_frame_buffer = replicate 20 0,
        full_refresh_pending = True, full_refresh_row_bitmap = replicate 2 0,
        trace = [InvalidateScreen]\<rparr>
   \<and> \<not> full_refresh_pending (initial small_panel)
   \<and> unat (partial_update_count (initial small_panel)) < MAX_PARTIAL_UPDATES small_panel
   \<and> eink_force_full_refresh small_panel (initial small_panel) = initial small_panel"
  using threshold_check_idle [of "(initial small_panel)\<lparr>partial_update_count := 2\<rparr>" small_panel]
    threshold_check_idle [of "initial small_panel" small_panel]
  by (simp add: initial_def)

text \<open>
  Claim C7. In a pending (Armed) state \<^verbatim>\<open>eink_force_full_refresh\<close> returns the state
  unchanged: the row bitmap, the trace (no invalidate-all call) and the pending flag
  are as before. Applying the check twice gives the state that applying it once gives.
\<close>

theorem threshold_check_armed:
  "(full_refresh_pending s \<longrightarrow> eink_force_full_refresh cfg s = s)
   \<and> eink_force_full_refresh cfg (eink_force_full_refresh cfg s) = eink_force_full_refresh cfg s"
  by (simp add: eink_force_full_refresh_def schedule_full_refresh_request_def emit_def)

theorem threshold_check_armed_witness:
  "full_refresh_pending ((initial small_panel)\<lparr>full_refresh_pending := True,
       full_refresh_row_bitmap := [0x1F, 0]\<rparr>)
   \<and> eink_force_full_refresh small_panel ((initial small_panel)\<lparr>full_refresh_pending := True,
       full_refresh_row_bitmap := [0x1F, 0]\<rparr>) =
     \<lparr>partial_update_count = 0, full_frame_buffer = replicate 20 0,
      full_refresh_pending = True, full_refresh_row_bitmap = [0x1F, 0], trace = []\<rparr>"
  using threshold_check_armed [of "(initial small_panel)\<lparr>full_refresh_pending := True,
       full_refresh_row_bitmap := [0x1F, 0]\<rparr>" small_panel]
  by (simp add: initial_def)

section \<open>Row coverage\<close>

text \<open>
  Claim C9. For every row span, also one that reaches beyond the panel height,
  \<^verbatim>\<open>mark_rows_covered\<close> returns (no access outside the bitmap), changes nothing but
  the row bitmap, keeps its length, and sets exactly the bits of the rows of the span
  that are below \<^verbatim>\<open>SCREEN_HEIGHT\<close>: every other bit keeps its value.
\<close>

theorem mark_rows_covered_clamped:
  assumes "cfg_ok cfg" "state_ok cfg s"
  shows "\<exists>bm'. mark_rows_covered cfg first_row last_row s = Some (s\<lparr>full_refresh_row_bitmap := bm'\<rparr>)
           \<and> length bm' = length (full_refresh_row_bitmap s)
           \<and> (\<forall>i. row_covered bm' i =
                  (row_covered (full_refresh_row_bitmap s) i
                   \<or> (unat first_row \<le> i \<and> i \<le> unat last_row \<and> i < SCREEN_HEIGHT cfg)))"
  unfolding mark_rows_covered_def
  using assms by (intro mark_rows_loop_bitmap) (simp_all add: cfg_ok_def state_ok_def)

theorem mark_rows_covered_clamped_witness:
  "cfg_ok small_panel \<and> state_ok small_panel (initial small_panel)
   \<and> mark_rows_covered small_panel 8 65535 (initial small_panel) =
        Some ((initial small_panel)\<lparr>full_refresh_row_bitmap := [0, 3]\<rparr>)
   \<and> (\<exists>bm'. mark_rows_covered small_panel 8 65535 (initial small_panel) =
              Some ((initial small_panel)\<lparr>full_refresh_row_bitmap := bm'\<rparr>)
           \<and> length bm' = length (full_refresh_row_bitmap (initial small_panel))
           \<and> (\<forall>i. row_covered bm' i =
                  (row_covered (full_refresh_row_bitmap (initial small_panel)) i
                   \<or> (unat (8 :: u16) \<le> i \<and> i \<le> unat (65535 :: u16)
                       \<and> i < SCREEN_HEIGHT small_panel))))"
proof -
  have two: "replicate 2 (0 :: u8) = [0, 0]"
    by (simp only: numeral_2_eq_2 replicate.simps)
  have "mark_rows_covered small_panel 8 65535 (initial small_panel) =
      Some ((initial small_panel)\<lparr>full_refresh_row_bitmap := [0, 3]\<rparr>)"
    by (simp add: mark_rows_covered_def mark_rows_loop.simps initial_def Let_def two)
  then show ?thesis
    using mark_rows_covered_clamped [OF cfg_ok_small_panel state_ok_initial, of 8 65535]
      cfg_ok_small_panel state_ok_initial [of small_panel]
    by blast
qed

section \<open>The full refresh\<close>

text \<open>
  Claim C6. \<^verbatim>\<open>perform_full_refresh\<close> returns, and on its return the counter is 0, the
  pending flag is false and every byte of the row bitmap is 0, while the shadow
  framebuffer is the one it started with. Its external calls are those of
  \<open>refresh_events\<close>: the framebuffer is read and written to the panel in row-major order.
\<close>

theorem perform_full_refresh_effect:
  assumes "cfg_ok cfg" "state_ok cfg s"
  shows "\<exists>s'. perform_full_refresh cfg s = Some s'
          \<and> partial_update_count s' = 0
          \<and> \<not> full_refresh_pending s'
          \<and> full_refresh_row_bitmap s' = replicate (length (full_refresh_row_bitmap s)) 0
          \<and> full_frame_buffer s' = full_frame_buffer s
          \<and> trace s' = trace s @ refresh_events cfg (full_frame_buffer s)"
  using perform_full_refresh_ok [OF assms] by simp

theorem perform_full_refresh_effect_witness:
  "cfg_ok small_panel
   \<and> state_ok small_panel ((initial small_panel)\<lparr>partial_update_count := 7,
        full_refresh_pending := True, full_refresh_row_bitmap := [0xFF, 3]\<rparr>)
   \<and> (\<exists>s'. perform_full_refresh small_panel ((initial small_panel)\<lparr>partial_update_count := 7,
              full_refresh_pending := True, full_refresh_row_bitmap := [0xFF, 3]\<rparr>) = Some s'
          \<and> partial_update_count s' = 0
          \<and> \<not> full_refresh_pending s'
          \<and> full_refresh_row_bitmap s' = [0, 0]
          \<and> full_frame_buffer s' = replicate 20 0
          \<and> trace s' = refresh_events small_panel (replicate 20 0))"
proof -
  let ?s = "(initial small_panel)\<lparr>partial_update_count := 7,
        full_refresh_pending := True, full_refresh_row_bitmap := [0xFF, 3]\<rparr>"
  have ok: "state_ok small_panel ?s"
    by (simp add: state_ok_def initial_def)
  show ?thesis
    using perform_full_refresh_effect [OF cfg_ok_small_panel ok] cfg_ok_small_panel ok
    by (simp add: initial_def)
qed

section \<open>The flush and the full refresh\<close>

text \<open>
  Claim C1. In a pending state whose arrays have their declared sizes (every reachable
  state has them, see \<open>run_state_ok\<close>), every flush the toolkit may issue returns
  (\<open>good_call\<close>: when the allocation succeeds, the rectangle lies within the panel and
  the pixel buffer holds its pixels; when it fails, any rectangle will do), and so does
  \<^verbatim>\<open>mark_rows_covered\<close> on the row span of the flush. The flush executes the full
  refresh exactly once if and only if the bit of every row below \<^verbatim>\<open>SCREEN_HEIGHT\<close> is
  set in the row bitmap after the marking; if the bit of one row is missing, the flush
  executes no full refresh. The full refreshes are counted by \<open>refresh_count\<close>.
\<close>

theorem full_refresh_iff_all_rows_covered:
  assumes "cfg_ok cfg" "state_ok cfg s" "full_refresh_pending s"
    and "good_call cfg (Flush area px_map malloc_result)"
  shows "\<exists>s' sm. my_disp_flush cfg area px_map malloc_result s = Some s'
       \<and> mark_rows_covered cfg (word_of_int (y1 area)) (word_of_int (y2 area)) s = Some sm
       \<and> (refresh_count s' = Suc (refresh_count s)
            \<longleftrightarrow> (\<forall>row<SCREEN_HEIGHT cfg. row_covered (full_refresh_row_bitmap sm) row))
       \<and> (refresh_count s' = refresh_count s
            \<longleftrightarrow> \<not> (\<forall>row<SCREEN_HEIGHT cfg. row_covered (full_refresh_row_bitmap sm) row))"
proof -
  from step_shadow [OF assms(1,2,4)] obtain s' where
    f: "my_disp_flush cfg area px_map malloc_result s = Some s'"
    by auto
  from flush_effect [OF assms(1,2) f] obtain bm' where
    m: "mark_rows_covered cfg (word_of_int (y1 area)) (word_of_int (y2 area)) s
              = Some (s\<lparr>full_refresh_row_bitmap := bm'\<rparr>)"
    and e: "if full_refresh_pending s \<and> (\<forall>row<SCREEN_HEIGHT cfg. row_covered bm' row)
              then refresh_count s' = Suc (refresh_count s) \<and> partial_update_count s' = 0
                   \<and> \<not> full_refresh_pending s'
              else refresh_count s' = refresh_count s
                   \<and> partial_update_count s' = partial_update_count s + 1
                   \<and> full_refresh_pending s' = full_refresh_pending s
                   \<and> full_refresh_row_bitmap s' =
                       (if full_refresh_pending s then bm' else full_refresh_row_bitmap s)"
    by blast
  define sm where "sm = s\<lparr>full_refresh_row_bitmap := bm'\<rparr>"
  have sm: "full_refresh_row_bitmap sm = bm'" by (simp add: sm_def)
  define c where "c \<longleftrightarrow> (\<forall>row<SCREEN_HEIGHT cfg. row_covered bm' row)"
  from e have "if c then refresh_count s' = Suc (refresh_count s)
               else refresh_count s' = refresh_count s"
    using assms(3) unfolding c_def [symmetric] by (cases c) simp_all
  then have "(refresh_count s' = Suc (refresh_count s) \<longleftrightarrow> c)
       \<and> (refresh_count s' = refresh_count s \<longleftrightarrow> \<not> c)"
    by (cases c) simp_all
  then have "my_disp_flush cfg area px_map malloc_result s = Some s'
       \<and> mark_rows_covered cfg (word_of_int (y1 area)) (word_of_int (y2 area)) s = Some sm
       \<and> (refresh_count s' = Suc (refresh_count s)
            \<longleftrightarrow> (\<forall>row<SCREEN_HEIGHT cfg. row_covered (full_refresh_row_bitmap sm) row))
       \<and> (refresh_count s' = refresh_count s
            \<longleftrightarrow> \<not> (\<forall>row<SCREEN_HEIGHT cfg. row_covered (full_refresh_row_bitmap sm) row))"
    using f m unfolding sm c_def sm_def [symmetric] by simp
  then show ?thesis by blast
qed

theorem full_refresh_iff_all_rows_covered_witness:
  "cfg_ok small_panel \<and> state_ok small_panel armed_example \<and> full_refresh_pending armed_example
   \<and> good_call small_panel (Flush lower_rows full_pixels (Some junk_example))
   \<and> good_call small_panel (Flush upper_rows full_pixels (Some junk_example))
   \<and> refresh_count armed_example = 0
   \<and> mark_rows_covered small_panel (word_of_int (y1 lower_rows)) (word_of_int (y2 lower_rows))
        armed_example = Some (armed_example\<lparr>full_refresh_row_bitmap := [0xFF, 3]\<rparr>)
   \<and> (\<exists>s'. my_disp_flush small_panel lower_rows full_pixels (Some junk_example) armed_example
              = Some s'
          \<and> refresh_count s' = 1)
   \<and> mark_rows_covered small_panel (word_of_int (y1 upper_rows)) (word_of_int (y2 upper_rows))
        armed_example = Some (armed_example\<lparr>full_refresh_row_bitmap := [0x1F, 0]\<rparr>)
   \<and> (\<exists>s'. my_disp_flush small_panel upper_rows full_pixels (Some junk_example) armed_example
              = Some s'
          \<and> refresh_count s' = 0)"
proof -
  have p: "full_refresh_pending armed_example" by (simp add: armed_example_def)
  have r: "refresh_count armed_example = 0" by (simp add: refresh_count_def armed_example_def)
  from full_refresh_iff_all_rows_covered
    [OF cfg_ok_small_panel state_ok_armed_example p good_lower_rows]
  obtain s' sm where
    "my_disp_flush small_panel lower_rows full_pixels (Some junk_example) armed_example = Some s'"
    "mark_rows_covered small_panel (word_of_int (y1 lower_rows)) (word_of_int (y2 lower_rows))
        armed_example = Some sm"
    "refresh_count s' = Suc (refresh_count armed_example)
       \<longleftrightarrow> (\<forall>row<SCREEN_HEIGHT small_panel. row_covered (full_refresh_row_bitmap sm) row)"
    by blast
  then have a: "\<exists>s'. my_disp_flush small_panel lower_rows full_pixels (Some junk_example)
                        armed_example = Some s' \<and> refresh_count s' = 1"
    using all_rows_example r unfolding mark_lower_rows by auto
  from full_refresh_iff_all_rows_covered
    [OF cfg_ok_small_panel state_ok_armed_example p good_upper_rows]
  obtain t' tm where
    "my_disp_flush small_panel upper_rows full_pixels (Some junk_example) armed_example = Some t'"
    "mark_rows_covered small_panel (word_of_int (y1 upper_rows)) (word_of_int (y2 upper_rows))
        armed_example = Some tm"
    "refresh_count t' = refresh_count armed_example
       \<longleftrightarrow> \<not> (\<forall>row<SCREEN_HEIGHT small_panel. row_covered (full_refresh_row_bitmap tm) row)"
    by blast
  then have b: "\<exists>s'. my_disp_flush small_panel upper_rows full_pixels (Some junk_example)
                        armed_example = Some s' \<and> refresh_count s' = 0"
    using not_all_rows_example r unfolding mark_upper_rows by auto
  show ?thesis
    using cfg_ok_small_panel state_ok_armed_example p good_lower_rows good_upper_rows r
      mark_lower_rows a mark_upper_rows b
    by blast
qed


text \<open>
  Claim C8. A flush whose allocation fails returns, for every rectangle and pixel
  buffer. What it adds to the trace starts with \<open>failed_update_events\<close> (a page cycle
  without any pixel), ends with the one call of \<^verbatim>\<open>lv_display_flush_ready\<close>, and
  holds in between nothing or the calls of a full refresh. The shadow framebuffer is
  the one before the call.
\<close>

theorem flush_alloc_failure_acknowledged:
  assumes "cfg_ok cfg" "state_ok cfg s"
  shows "\<exists>s' rest. my_disp_flush cfg area px_map None s = Some s'
           \<and> trace s' = trace s @ failed_update_events cfg area @ rest @ [FlushReady]
           \<and> (rest = [] \<or> rest = refresh_events cfg (full_frame_buffer s))
           \<and> count_list (failed_update_events cfg area @ rest @ [FlushReady]) FlushReady = 1
           \<and> full_frame_buffer s' = full_frame_buffer s"
proof -
  from flush_alloc_failure [OF assms, of area px_map] obtain bm' where
    f: "my_disp_flush cfg area px_map None s =
               Some (if full_refresh_pending s
                     then (if \<forall>row<SCREEN_HEIGHT cfg. row_covered bm' row
                           then s\<lparr>partial_update_count := 0,
                                  full_refresh_pending := False,
                                  full_refresh_row_bitmap :=
                                    replicate (length (full_refresh_row_bitmap s)) 0,
                                  trace := trace s @ failed_update_events cfg area
                                    @ refresh_events cfg (full_frame_buffer s) @ [FlushReady]\<rparr>
                           else s\<lparr>partial_update_count := partial_update_count s + 1,
                                  full_refresh_row_bitmap := bm',
                                  trace := trace s @ failed_update_events cfg area @ [FlushReady]\<rparr>)
                     else s\<lparr>partial_update_count := partial_update_count s + 1,
                            trace := trace s @ failed_update_events cfg area @ [FlushReady]\<rparr>)"
    by blast
  define c where "c \<longleftrightarrow> full_refresh_pending s \<and> (\<forall>row<SCREEN_HEIGHT cfg. row_covered bm' row)"
  define rest where "rest = (if c then refresh_events cfg (full_frame_buffer s) else [])"
  obtain s' where s': "my_disp_flush cfg area px_map None s = Some s'" using f by simp
  have "trace s' = trace s @ failed_update_events cfg area @ rest @ [FlushReady]"
    and "full_frame_buffer s' = full_frame_buffer s"
    using s' unfolding f rest_def c_def by (auto split: if_splits)
  moreover have "rest = [] \<or> rest = refresh_events cfg (full_frame_buffer s)"
    by (simp add: rest_def)
  moreover have "count_list (failed_update_events cfg area @ rest @ [FlushReady]) FlushReady = 1"
    by (simp add: rest_def failed_update_events_counts refresh_events_flush_ready)
  ultimately show ?thesis using s' by blast
qed

theorem flush_alloc_failure_acknowledged_witness:
  "cfg_ok small_panel \<and> state_ok small_panel armed_example
   \<and> (\<exists>s' rest. my_disp_flush small_panel upper_rows no_pixels None armed_example = Some s'
           \<and> trace s' = trace armed_example @ failed_update_events small_panel upper_rows
                @ rest @ [FlushReady]
           \<and> (rest = [] \<or> rest = refresh_events small_panel (full_frame_buffer armed_example))
           \<and> count_list (failed_update_events small_panel upper_rows @ rest @ [FlushReady])
                FlushReady = 1
           \<and> full_frame_buffer s' = full_frame_buffer armed_example)"
  using flush_alloc_failure_acknowledged [OF cfg_ok_small_panel state_ok_armed_example,
      of upper_rows no_pixels]
    cfg_ok_small_panel state_ok_armed_example
  by blast

text \<open>
  Claim C10. A flush in a pending state whose allocation fails still marks its row span:
  the row bitmap it works with is the one \<^verbatim>\<open>mark_rows_covered\<close> gives. When that
  bitmap covers every row the full refresh executes in the same flush and replays the
  framebuffer as it was before the flush (\<open>refresh_events\<close> of the old framebuffer),
  which the failed flush never updated; otherwise the marked bitmap is kept.
\<close>

theorem flush_alloc_failure_marks_rows:
  assumes "cfg_ok cfg" "state_ok cfg s" "full_refresh_pending s"
  shows "\<exists>bm'. mark_rows_covered cfg (word_of_int (y1 area)) (word_of_int (y2 area)) s
              = Some (s\<lparr>full_refresh_row_bitmap := bm'\<rparr>)
           \<and> (\<forall>i. row_covered bm' i =
                  (row_covered (full_refresh_row_bitmap s) i
                   \<or> (unat (word_of_int (y1 area) :: u16) \<le> i
                       \<and> i \<le> unat (word_of_int (y2 area) :: u16) \<and> i < SCREEN_HEIGHT cfg)))
           \<and> my_disp_flush cfg area px_map None s =
               Some (if \<forall>row<SCREEN_HEIGHT cfg. row_covered bm' row
                     then s\<lparr>partial_update_count := 0,
                            full_refresh_pending := False,
                            full_refresh_row_bitmap :=
                              replicate (length (full_refresh_row_bitmap s)) 0,
                            trace := trace s @ failed_update_events cfg area
                              @ refresh_events cfg (full_frame_buffer s) @ [FlushReady]\<rparr>
                     else s\<lparr>partial_update_count := partial_update_count s + 1,
                            full_refresh_row_bitmap := bm',
                            trace := trace s @ failed_update_events cfg area @ [FlushReady]\<rparr>)"
  using flush_alloc_failure [OF assms(1,2), of area px_map] assms(3) by (simp only: if_True) blast

theorem flush_alloc_failure_marks_rows_witness:
  "cfg_ok small_panel \<and> state_ok small_panel armed_example \<and> full_refresh_pending armed_example
   \<and> mark_rows_covered small_panel (word_of_int (y1 lower_rows)) (word_of_int (y2 lower_rows))
        armed_example = Some (armed_example\<lparr>full_refresh_row_bitmap := [0xFF, 3]\<rparr>)
   \<and> my_disp_flush small_panel lower_rows no_pixels None armed_example =
        Some \<lparr>partial_update_count = 0, full_frame_buffer = replicate 20 0,
              full_refresh_pending = False, full_refresh_row_bitmap = [0, 0],
              trace = failed_update_events small_panel lower_rows
                      @ refresh_events small_panel (replicate 20 0) @ [FlushReady]\<rparr>"
proof -
  have p: "full_refresh_pending armed_example" by (simp add: armed_example_def)
  from flush_alloc_failure_marks_rows [OF cfg_ok_small_panel state_ok_armed_example p,
      of lower_rows no_pixels]
  obtain bm' where
    m: "mark_rows_covered small_panel (word_of_int (y1 lower_rows)) (word_of_int (y2 lower_rows))
          armed_example = Some (armed_example\<lparr>full_refresh_row_bitmap := bm'\<rparr>)"
    and f: "my_disp_flush small_panel lower_rows no_pixels None armed_example =
               Some (if \<forall>row<SCREEN_HEIGHT small_panel. row_covered bm' row
                     then armed_example\<lparr>partial_update_count := 0,
                            full_refresh_pending := False,
                            full_refresh_row_bitmap :=
                              replicate (length (full_refresh_row_bitmap armed_example)) 0,
                            trace := trace armed_example @ failed_update_events small_panel lower_rows
                              @ refresh_events small_panel (full_frame_buffer armed_example)
                              @ [FlushReady]\<rparr>
                     else armed_example\<lparr>partial_update_count := partial_update_count armed_example + 1,
                            full_refresh_row_bitmap := bm',
                            trace := trace armed_example @ failed_update_events small_panel lower_rows
                              @ [FlushReady]\<rparr>)"
    by blast
  have bm: "bm' = [0xFF, 3]" using m mark_lower_rows by (auto dest: row_bitmap_update_inj)
  have "my_disp_flush small_panel lower_rows no_pixels None armed_example =
        Some \<lparr>partial_update_count = 0, full_frame_buffer = replicate 20 0,
              full_refresh_pending = False, full_refresh_row_bitmap = [0, 0],
              trace = failed_update_events small_panel lower_rows
                      @ refresh_events small_panel (replicate 20 0) @ [FlushReady]\<rparr>"
    unfolding f bm
    by (simp only: all_rows_example [THEN eqTrueI] if_True) (simp add: armed_example_def)
  then show ?thesis
    using cfg_ok_small_panel state_ok_armed_example p mark_lower_rows by simp
qed

section \<open>The pixel format conversion\<close>

text \<open>
  Claim C2. For a flush of a rectangle within the panel whose pixel buffer holds the
  pixels of the rectangle, the conversion loops return a buffer in which, for every pixel
  \<open>(x, y)\<close> with \<open>x < w\<close> and \<open>y < h\<close>, the bit at byte \<open>y * stride + x div 8\<close>,
  position \<open>7 - x mod 8\<close> (most significant bit first, stride \<open>(w + 7) div 8\<close>) is 1
  exactly when the same bit of the source is 0. The bits of the positions from \<open>w\<close> up to
  \<open>8 * stride\<close> of every row are 0. The loops read no byte of the source but those that
  carry a pixel of the rectangle: with every other byte made unreadable they return the
  same result.
\<close>

theorem conversion_inverts_polarity:
  assumes "cfg_ok cfg" "state_ok cfg s" "area_ok cfg area"
    and "src_ok px_map (area_stride area) (area_width area) (area_height area)"
  shows "\<exists>buf t.
           convert_rows cfg area px_map (area_width area) (area_height area)
               (area_stride area) (area_stride area)
               (map junk [0..<(area_stride area * area_height area) mod 2 ^ 32], s) = Some (buf, t)
         \<and> area_stride area = (area_width area + 7) div 8
         \<and> (\<forall>x y. x < area_width area \<longrightarrow> y < area_height area \<longrightarrow>
               bit (buf ! (y * area_stride area + x div 8)) (7 - x mod 8) =
                 (\<not> bit (the (px_map (8 + y * area_stride area + x div 8))) (7 - x mod 8)))
         \<and> (\<forall>x y. area_width area \<le> x \<longrightarrow> x < 8 * area_stride area \<longrightarrow> y < area_height area \<longrightarrow>
               \<not> bit (buf ! (y * area_stride area + x div 8)) (7 - x mod 8))
         \<and> convert_rows cfg area
               (px_map |` src_bytes (area_stride area) (area_width area) (area_height area))
               (area_width area) (area_height area) (area_stride area) (area_stride area)
               (map junk [0..<(area_stride area * area_height area) mod 2 ^ 32], s) = Some (buf, t)"
proof -
  let ?w = "area_width area" and ?h = "area_height area" and ?st = "area_stride area"
  from assms(1,3) obtain X0 Y0 where
    st: "?st = (?w + 7) div 8" and ws: "?w \<le> 8 * ?st" and prod: "?st * ?h < 2 ^ 32"
    by (rule area_dims)
  from update_region_ok [OF assms, of junk] obtain buf fb' where
    c: "convert_rows cfg area px_map ?w ?h ?st ?st (map junk [0..<(?st * ?h) mod 2 ^ 32], s)
          = Some (buf, s\<lparr>full_frame_buffer := fb'\<rparr>)"
    and g: "conv_good px_map ?st ?w buf (?st * ?h)"
    by blast
  have bits: "bit (buf ! (y * ?st + x div 8)) (7 - x mod 8) =
      (x < ?w \<and> source_black px_map ?st x y)"
    if "x < 8 * ?st" "y < ?h" for x y
  proof -
    have bx: "x div 8 < ?st" using that(1) by arith
    then have i: "y * ?st + x div 8 < ?st * ?h" using that(2) by (rule pixel_index_bound)
    have dm: "(y * ?st + x div 8) div ?st = y" "(y * ?st + x div 8) mod ?st = x div 8"
      using bx by simp_all
    have "byte_bits px_map ?st ?w ((y * ?st + x div 8) div ?st) ((y * ?st + x div 8) mod ?st) 8
        (buf ! (y * ?st + x div 8))"
      using g i unfolding conv_good_def by blast
    then have "byte_bits px_map ?st ?w y (x div 8) 8 (buf ! (y * ?st + x div 8))"
      by (simp only: dm)
    then have "bit (buf ! (y * ?st + x div 8)) (7 - x mod 8) =
        (x mod 8 < 8 \<and> x div 8 * 8 + x mod 8 < ?w
         \<and> source_black px_map ?st (x div 8 * 8 + x mod 8) y)"
      unfolding byte_bits_def by simp
    then show ?thesis by simp
  qed
  have a: "bit (buf ! (y * ?st + x div 8)) (7 - x mod 8) =
      (\<not> bit (the (px_map (8 + y * ?st + x div 8))) (7 - x mod 8))"
    if "x < ?w" "y < ?h" for x y
  proof -
    have "x < 8 * ?st" using that(1) ws by simp
    then show ?thesis using bits [of x y] that by (simp add: source_black_def)
  qed
  have b: "\<not> bit (buf ! (y * ?st + x div 8)) (7 - x mod 8)"
    if "?w \<le> x" "x < 8 * ?st" "y < ?h" for x y
    using bits [of x y] that by simp
  have r: "convert_rows cfg area (px_map |` src_bytes ?st ?w ?h) ?w ?h ?st ?st
      (map junk [0..<(?st * ?h) mod 2 ^ 32], s) = Some (buf, s\<lparr>full_frame_buffer := fb'\<rparr>)"
    using c by (simp only: convert_rows_restrict [OF ws prod])
  from c st a b r show ?thesis by blast
qed


theorem conversion_inverts_polarity_witness:
  "cfg_ok small_panel \<and> state_ok small_panel (initial small_panel)
   \<and> area_ok small_panel window_example
   \<and> src_ok pixels_example (area_stride window_example) (area_width window_example)
        (area_height window_example)
   \<and> (\<exists>buf t.
           convert_rows small_panel window_example pixels_example 10 2 2 2
               (map junk_example [0..<4], initial small_panel) = Some (buf, t)
         \<and> buf = [0x5A, 0x80, 0x00, 0xC0]
         \<and> (\<forall>x y. x < 10 \<longrightarrow> y < 2 \<longrightarrow>
               bit (buf ! (y * 2 + x div 8)) (7 - x mod 8) =
                 (\<not> bit (the (pixels_example (8 + y * 2 + x div 8))) (7 - x mod 8)))
         \<and> (\<forall>x y. 10 \<le> x \<longrightarrow> x < 16 \<longrightarrow> y < 2 \<longrightarrow>
               \<not> bit (buf ! (y * 2 + x div 8)) (7 - x mod 8))
         \<and> convert_rows small_panel window_example (pixels_example |` src_bytes 2 10 2) 10 2 2 2
               (map junk_example [0..<4], initial small_panel) = Some (buf, t))"
proof -
  from conversion_inverts_polarity [OF cfg_ok_small_panel state_ok_initial
      area_ok_window_example src_ok_window_example, of junk_example]
  obtain buf t where
    c: "convert_rows small_panel window_example pixels_example 10 2 2 2
               (map junk_example [0..<4], initial small_panel) = Some (buf, t)"
    and a: "\<forall>x y. x < 10 \<longrightarrow> y < 2 \<longrightarrow>
               bit (buf ! (y * 2 + x div 8)) (7 - x mod 8) =
                 (\<not> bit (the (pixels_example (8 + y * 2 + x div 8))) (7 - x mod 8))"
    and b: "\<forall>x y. 10 \<le> x \<longrightarrow> x < 16 \<longrightarrow> y < 2 \<longrightarrow>
               \<not> bit (buf ! (y * 2 + x div 8)) (7 - x mod 8)"
    and r: "convert_rows small_panel window_example (pixels_example |` src_bytes 2 10 2) 10 2 2 2
               (map junk_example [0..<4], initial small_panel) = Some (buf, t)"
    unfolding window_example_dims by auto
  have "buf = [0x5A, 0x80, 0x00, 0xC0]" using c convert_example by simp
  with c a b r show ?thesis
    using cfg_ok_small_panel state_ok_initial [of small_panel] area_ok_window_example
      src_ok_window_example
    by blast
qed

section \<open>The shadow framebuffer\<close>

text \<open>
  Claim C3. Every sequence of calls in which the flushes whose allocation succeeds have a
  rectangle within the panel (and a pixel buffer that holds its pixels) has a defined
  outcome, and afterwards \<^verbatim>\<open>get_full_frame_pixel\<close> gives, for every pixel of the panel
  that one of these flushes covered, the colour of the most recent flush that covered it,
  whatever the framebuffer held at the start; a pixel no flush covered keeps its value.
  For a single flush this is: every pixel \<open>(x1 + x, y1 + y)\<close> of the rectangle holds the
  colour of the source pixel \<open>(x, y)\<close>. When the rectangles cover the whole panel,
  \<open>last_flushed\<close> is defined everywhere and no pixel depends on the initial framebuffer.
\<close>

theorem shadow_framebuffer_fidelity:
  assumes "cfg_ok cfg" "state_ok cfg s" "list_all (good_call cfg) calls"
  shows "\<exists>s'. run cfg calls s = Some s'
           \<and> (\<forall>X Y. X < SCREEN_WIDTH cfg \<longrightarrow> Y < SCREEN_HEIGHT cfg \<longrightarrow>
                 get_full_frame_pixel cfg (of_nat X) (of_nat Y) s' =
                   Some (case last_flushed calls X Y of
                           Some b \<Rightarrow> b
                         | None \<Rightarrow> shadow_pixel cfg (full_frame_buffer s) X Y))"
proof -
  have "\<exists>s'. run cfg calls s = Some s' \<and> state_ok cfg s'
           \<and> (\<forall>X Y. X < SCREEN_WIDTH cfg \<longrightarrow> Y < SCREEN_HEIGHT cfg \<longrightarrow>
                 shadow_pixel cfg (full_frame_buffer s') X Y =
                   (case last_flushed calls X Y of
                      Some b \<Rightarrow> b
                    | None \<Rightarrow> shadow_pixel cfg (full_frame_buffer s) X Y))"
    using assms(2,3)
  proof (induction calls arbitrary: s)
    case Nil
    then show ?case by simp
  next
    case (Cons c cs)
    then have g: "good_call cfg c" and gs: "list_all (good_call cfg) cs" by simp_all
    from step_shadow [OF assms(1) Cons.prems(1) g] obtain s1 where
      s1: "step cfg c s = Some s1" "state_ok cfg s1"
      and p1: "\<And>X Y. X < SCREEN_WIDTH cfg \<Longrightarrow> Y < SCREEN_HEIGHT cfg \<Longrightarrow>
                 shadow_pixel cfg (full_frame_buffer s1) X Y =
                   (case painted_by c X Y of
                      Some b \<Rightarrow> b
                    | None \<Rightarrow> shadow_pixel cfg (full_frame_buffer s) X Y)"
      by blast
    from Cons.IH [OF s1(2) gs] obtain s' where
      s': "run cfg cs s1 = Some s'" "state_ok cfg s'"
      and p': "\<And>X Y. X < SCREEN_WIDTH cfg \<Longrightarrow> Y < SCREEN_HEIGHT cfg \<Longrightarrow>
                 shadow_pixel cfg (full_frame_buffer s') X Y =
                   (case last_flushed cs X Y of
                      Some b \<Rightarrow> b
                    | None \<Rightarrow> shadow_pixel cfg (full_frame_buffer s1) X Y)"
      by blast
    have "run cfg (c # cs) s = Some s'" using s1(1) s'(1) by simp
    moreover have "shadow_pixel cfg (full_frame_buffer s') X Y =
        (case last_flushed (c # cs) X Y of
           Some b \<Rightarrow> b
         | None \<Rightarrow> shadow_pixel cfg (full_frame_buffer s) X Y)"
      if "X < SCREEN_WIDTH cfg" "Y < SCREEN_HEIGHT cfg" for X Y
      using p' [OF that] p1 [OF that] by (simp split: option.splits)
    ultimately show ?case using s'(2) by blast
  qed
  then obtain s' where r: "run cfg calls s = Some s'" and ok': "state_ok cfg s'"
    and p: "\<And>X Y. X < SCREEN_WIDTH cfg \<Longrightarrow> Y < SCREEN_HEIGHT cfg \<Longrightarrow>
                 shadow_pixel cfg (full_frame_buffer s') X Y =
                   (case last_flushed calls X Y of
                      Some b \<Rightarrow> b
                    | None \<Rightarrow> shadow_pixel cfg (full_frame_buffer s) X Y)"
    by blast
  have "get_full_frame_pixel cfg (of_nat X) (of_nat Y) s' =
      Some (case last_flushed calls X Y of
              Some b \<Rightarrow> b
            | None \<Rightarrow> shadow_pixel cfg (full_frame_buffer s) X Y)"
    if "X < SCREEN_WIDTH cfg" "Y < SCREEN_HEIGHT cfg" for X Y
  proof -
    have "X < 65536" "Y < 65536" using that assms(1) by (simp_all add: cfg_ok_def)
    then have u: "unat (of_nat X :: u16) = X" "unat (of_nat Y :: u16) = Y"
      by (simp_all add: unat_of_nat)
    have "get_full_frame_pixel cfg (of_nat X) (of_nat Y) s' =
        Some (shadow_pixel cfg (full_frame_buffer s') (unat (of_nat X :: u16)) (unat (of_nat Y :: u16)))"
      using assms(1) ok' that by (intro get_full_frame_pixel_ok) (simp_all add: u)
    then show ?thesis unfolding u p [OF that] .
  qed
  with r show ?thesis by blast
qed


theorem shadow_framebuffer_fidelity_witness:
  "cfg_ok small_panel \<and> state_ok small_panel (initial small_panel)
   \<and> list_all (good_call small_panel) [one_flush]
   \<and> (\<exists>s'. run small_panel [one_flush] (initial small_panel) = Some s'
           \<and> get_full_frame_pixel small_panel 4 2 s' = Some True
           \<and> get_full_frame_pixel small_panel 3 2 s' = Some False
           \<and> get_full_frame_pixel small_panel 2 2 s' = Some False)
   \<and> state_ok small_panel armed_example
   \<and> list_all (good_call small_panel)
        [one_flush, ThresholdCheck, Flush lower_rows no_pixels None,
         Flush full_window full_pixels (Some junk_example)]
   \<and> (\<exists>s'. run small_panel
               [one_flush, ThresholdCheck, Flush lower_rows no_pixels None,
                Flush full_window full_pixels (Some junk_example)] armed_example = Some s'
           \<and> get_full_frame_pixel small_panel 4 2 s' = Some True
           \<and> (\<forall>X Y. X < SCREEN_WIDTH small_panel \<longrightarrow> Y < SCREEN_HEIGHT small_panel \<longrightarrow>
                 get_full_frame_pixel small_panel (of_nat X) (of_nat Y) s' =
                   Some (case last_flushed
                                 [one_flush, ThresholdCheck, Flush lower_rows no_pixels None,
                                  Flush full_window full_pixels (Some junk_example)] X Y of
                           Some b \<Rightarrow> b
                         | None \<Rightarrow> shadow_pixel small_panel (full_frame_buffer armed_example) X Y)))"
proof -
  have g1: "list_all (good_call small_panel) [one_flush]" using good_one_flush by simp
  from shadow_framebuffer_fidelity [OF cfg_ok_small_panel state_ok_initial g1]
  obtain s1 where r1: "run small_panel [one_flush] (initial small_panel) = Some s1"
    and p1: "\<And>X Y. X < SCREEN_WIDTH small_panel \<Longrightarrow> Y < SCREEN_HEIGHT small_panel \<Longrightarrow>
                 get_full_frame_pixel small_panel (of_nat X) (of_nat Y) s1 =
                   Some (case last_flushed [one_flush] X Y of
                           Some b \<Rightarrow> b
                         | None \<Rightarrow> shadow_pixel small_panel
                                     (full_frame_buffer (initial small_panel)) X Y)"
    by blast
  have z: "shadow_pixel small_panel (full_frame_buffer (initial small_panel)) 2 2 = False"
    by (simp add: shadow_pixel_def initial_def)
  have a1: "get_full_frame_pixel small_panel 4 2 s1 = Some True"
    using p1 [of 4 2] unfolding last_flushed_example2 by simp
  have a2: "get_full_frame_pixel small_panel 3 2 s1 = Some False"
    using p1 [of 3 2] unfolding last_flushed_example2 by simp
  have a3: "get_full_frame_pixel small_panel 2 2 s1 = Some False"
    using p1 [of 2 2] unfolding last_flushed_example2 z by simp
  from shadow_framebuffer_fidelity [OF cfg_ok_small_panel state_ok_armed_example good_example_calls]
  obtain s2 where r2: "run small_panel
               [one_flush, ThresholdCheck, Flush lower_rows no_pixels None,
                Flush full_window full_pixels (Some junk_example)] armed_example = Some s2"
    and p2: "\<forall>X Y. X < SCREEN_WIDTH small_panel \<longrightarrow> Y < SCREEN_HEIGHT small_panel \<longrightarrow>
                 get_full_frame_pixel small_panel (of_nat X) (of_nat Y) s2 =
                   Some (case last_flushed
                                 [one_flush, ThresholdCheck, Flush lower_rows no_pixels None,
                                  Flush full_window full_pixels (Some junk_example)] X Y of
                           Some b \<Rightarrow> b
                         | None \<Rightarrow> shadow_pixel small_panel (full_frame_buffer armed_example) X Y)"
    by blast
  have b1: "get_full_frame_pixel small_panel 4 2 s2 = Some True"
    using p2 [rule_format, of 4 2] unfolding last_flushed_example by simp
  show ?thesis
    using cfg_ok_small_panel state_ok_initial [of small_panel] g1 r1 a1 a2 a3
      state_ok_armed_example good_example_calls r2 b1 p2
    by blast
qed

section \<open>The partial-update counter\<close>

text \<open>
  Claim C5, as stated, fails: the counter is a \<^verbatim>\<open>uint8_t\<close>. On the small panel, 255
  flushes of a window from the initial state bring the counter to 255, and the next
  flush brings it to 0 although no full refresh has executed.
\<close>

theorem counter_wraps_counterexample:
  "run small_panel (replicate 255 one_flush) (initial small_panel) \<noteq> None
   \<and> run small_panel (replicate 256 one_flush) (initial small_panel) \<noteq> None
   \<and> partial_update_count (the (run small_panel (replicate 255 one_flush) (initial small_panel)))
       = 255
   \<and> partial_update_count (the (run small_panel (replicate 256 one_flush) (initial small_panel)))
       = 0
   \<and> refresh_count (the (run small_panel (replicate 256 one_flush) (initial small_panel))) = 0"
proof -
  have idle: "\<not> full_refresh_pending (initial small_panel)" by (simp add: initial_def)
  have r0: "refresh_count (initial small_panel) = 0" "partial_update_count (initial small_panel) = 0"
    by (simp_all add: refresh_count_def initial_def)
  from idle_flushes [OF cfg_ok_small_panel good_one_flush [unfolded one_flush_def]
      state_ok_initial idle, of 255]
  obtain a where a: "run small_panel (replicate 255 one_flush) (initial small_panel) = Some a"
    "partial_update_count a = 255"
    unfolding one_flush_def r0 by auto
  from idle_flushes [OF cfg_ok_small_panel good_one_flush [unfolded one_flush_def]
      state_ok_initial idle, of 256]
  obtain b where b: "run small_panel (replicate 256 one_flush) (initial small_panel) = Some b"
    "partial_update_count b = 0" "refresh_count b = 0"
    unfolding one_flush_def r0 by auto
  show ?thesis using a b by simp
qed


text \<open>
  Claim C5, amended. In every state whose arrays have their declared sizes (by
  \<open>run_state_ok\<close>, every state a sequence of calls reaches from the initial state),
  every call the toolkit may issue returns (\<open>good_call\<close>). The threshold check leaves
  the counter as it is and executes no full refresh; a flush during which no full
  refresh executes adds 1 to the counter modulo 256, so exactly 1 unless the counter
  stood at 255, where it wraps to 0; and a flush during which the full refresh executes
  (exactly once) leaves the counter at 0.
\<close>

theorem counter_step:
  assumes "cfg_ok cfg" "state_ok cfg s" "good_call cfg c"
  shows "\<exists>s'. step cfg c s = Some s'
         \<and> (case c of
               ThresholdCheck \<Rightarrow>
                 partial_update_count s' = partial_update_count s
                 \<and> refresh_count s' = refresh_count s
             | Flush area px_map malloc_result \<Rightarrow>
                 (if refresh_count s' = refresh_count s
                  then unat (partial_update_count s') = (unat (partial_update_count s) + 1) mod 256
                  else refresh_count s' = Suc (refresh_count s) \<and> partial_update_count s' = 0))"
proof (cases c)
  case ThresholdCheck
  then show ?thesis
    by (simp add: eink_force_full_refresh_def schedule_full_refresh_request_def emit_def
          refresh_count_def)
next
  case (Flush area px_map malloc_result)
  from step_shadow [OF assms] obtain s' where
    f: "my_disp_flush cfg area px_map malloc_result s = Some s'"
    unfolding Flush by auto
  from flush_effect [OF assms(1,2) f] obtain bm' where
    e: "if full_refresh_pending s \<and> (\<forall>row<SCREEN_HEIGHT cfg. row_covered bm' row)
              then refresh_count s' = Suc (refresh_count s) \<and> partial_update_count s' = 0
                   \<and> \<not> full_refresh_pending s'
              else refresh_count s' = refresh_count s
                   \<and> partial_update_count s' = partial_update_count s + 1
                   \<and> full_refresh_pending s' = full_refresh_pending s
                   \<and> full_refresh_row_bitmap s' =
                       (if full_refresh_pending s then bm' else full_refresh_row_bitmap s)"
    by blast
  define d where "d \<longleftrightarrow> full_refresh_pending s \<and> (\<forall>row<SCREEN_HEIGHT cfg. row_covered bm' row)"
  have "if d then refresh_count s' = Suc (refresh_count s) \<and> partial_update_count s' = 0
        else refresh_count s' = refresh_count s
             \<and> partial_update_count s' = partial_update_count s + 1"
    using e unfolding d_def [symmetric] by (cases d) simp_all
  then have "if refresh_count s' = refresh_count s
             then unat (partial_update_count s') = (unat (partial_update_count s) + 1) mod 256
             else refresh_count s' = Suc (refresh_count s) \<and> partial_update_count s' = 0"
    by (cases d) (simp_all add: unat_word_ariths)
  then show ?thesis
    unfolding Flush using f by simp
qed

theorem counter_step_witness:
  "cfg_ok small_panel \<and> state_ok small_panel armed_example
   \<and> state_ok small_panel full_counter_example
   \<and> good_call small_panel (Flush upper_rows full_pixels (Some junk_example))
   \<and> good_call small_panel (Flush lower_rows full_pixels (Some junk_example))
   \<and> good_call small_panel ThresholdCheck
   \<and> partial_update_count armed_example = 3
   \<and> partial_update_count full_counter_example = 255
   \<and> (\<exists>s'. step small_panel (Flush upper_rows full_pixels (Some junk_example)) armed_example
              = Some s'
          \<and> refresh_count s' = refresh_count armed_example
          \<and> partial_update_count s' = 4)
   \<and> (\<exists>s'. step small_panel (Flush upper_rows full_pixels (Some junk_example))
              full_counter_example = Some s'
          \<and> refresh_count s' = refresh_count full_counter_example
          \<and> partial_update_count s' = 0)
   \<and> (\<exists>s'. step small_panel (Flush lower_rows full_pixels (Some junk_example)) armed_example
              = Some s'
          \<and> refresh_count s' = Suc (refresh_count armed_example)
          \<and> partial_update_count s' = 0)
   \<and> (\<exists>s'. step small_panel ThresholdCheck armed_example = Some s'
          \<and> partial_update_count s' = 3)"
proof -
  have pc: "partial_update_count armed_example = 3"
    "partial_update_count full_counter_example = 255"
    by (simp_all add: armed_example_def full_counter_example_def)
  have p: "full_refresh_pending armed_example" "full_refresh_pending full_counter_example"
    by (simp_all add: armed_example_def full_counter_example_def)
  have a: "\<exists>s'. step small_panel (Flush upper_rows full_pixels (Some junk_example)) armed_example
              = Some s'
          \<and> refresh_count s' = refresh_count armed_example
          \<and> partial_update_count s' = 4"
  proof -
    from counter_step [OF cfg_ok_small_panel state_ok_armed_example good_upper_rows]
    obtain s' where
      s: "step small_panel (Flush upper_rows full_pixels (Some junk_example)) armed_example
            = Some s'"
      and i: "if refresh_count s' = refresh_count armed_example
              then unat (partial_update_count s')
                     = (unat (partial_update_count armed_example) + 1) mod 256
              else refresh_count s' = Suc (refresh_count armed_example)
                   \<and> partial_update_count s' = 0"
      by auto
    from s have "my_disp_flush small_panel upper_rows full_pixels (Some junk_example)
                   armed_example = Some s'" by simp
    from flush_counts [OF cfg_ok_small_panel state_ok_armed_example this mark_upper_rows not_covered_example]
    have r: "refresh_count s' = refresh_count armed_example"
      by simp
    with i have "unat (partial_update_count s') = 4" by (simp add: pc)
    then have "of_nat (unat (partial_update_count s')) = (of_nat 4 :: u8)" by (rule arg_cong)
    then have "partial_update_count s' = 4" by simp
    with s r show ?thesis by blast
  qed
  have b: "\<exists>s'. step small_panel (Flush upper_rows full_pixels (Some junk_example))
              full_counter_example = Some s'
          \<and> refresh_count s' = refresh_count full_counter_example
          \<and> partial_update_count s' = 0"
  proof -
    from counter_step [OF cfg_ok_small_panel state_ok_full_counter_example good_upper_rows]
    obtain s' where
      s: "step small_panel (Flush upper_rows full_pixels (Some junk_example))
            full_counter_example = Some s'"
      and i: "if refresh_count s' = refresh_count full_counter_example
              then unat (partial_update_count s')
                     = (unat (partial_update_count full_counter_example) + 1) mod 256
              else refresh_count s' = Suc (refresh_count full_counter_example)
                   \<and> partial_update_count s' = 0"
      by auto
    from s have "my_disp_flush small_panel upper_rows full_pixels (Some junk_example)
                   full_counter_example = Some s'" by simp
    from flush_counts [OF cfg_ok_small_panel state_ok_full_counter_example this
        mark_upper_rows_full_counter not_covered_example]
    have r: "refresh_count s' = refresh_count full_counter_example"
      by simp
    with i have "unat (partial_update_count s') = 0" by (simp add: pc)
    then have "partial_update_count s' = 0" by (simp add: unat_eq_0)
    with s r show ?thesis by blast
  qed
  have c: "\<exists>s'. step small_panel (Flush lower_rows full_pixels (Some junk_example)) armed_example
              = Some s'
          \<and> refresh_count s' = Suc (refresh_count armed_example)
          \<and> partial_update_count s' = 0"
  proof -
    from counter_step [OF cfg_ok_small_panel state_ok_armed_example good_lower_rows]
    obtain s' where
      s: "step small_panel (Flush lower_rows full_pixels (Some junk_example)) armed_example
            = Some s'"
      and i: "if refresh_count s' = refresh_count armed_example
              then unat (partial_update_count s')
                     = (unat (partial_update_count armed_example) + 1) mod 256
              else refresh_count s' = Suc (refresh_count armed_example)
                   \<and> partial_update_count s' = 0"
      by auto
    from s have "my_disp_flush small_panel lower_rows full_pixels (Some junk_example)
                   armed_example = Some s'" by simp
    from flush_counts [OF cfg_ok_small_panel state_ok_armed_example this mark_lower_rows covered_example]
    have r: "refresh_count s' = Suc (refresh_count armed_example)"
      by simp
    with i have "partial_update_count s' = 0" by simp
    with s r show ?thesis by blast
  qed
  have d: "\<exists>s'. step small_panel ThresholdCheck armed_example = Some s'
          \<and> partial_update_count s' = 3"
    using counter_step [OF cfg_ok_small_panel state_ok_armed_example, of ThresholdCheck]
    by (simp add: pc)
  show ?thesis
    using cfg_ok_small_panel state_ok_armed_example state_ok_full_counter_example
      good_upper_rows good_lower_rows pc a b c d
    by simp
qed


end
